theory Spec2Isabelle
  imports Main "HOL-Library.Word"
begin

section \<open>The line buffer and the C string primitives\<close>

text \<open>
  The command line lives in a character array. A pointer into it is an index, the null
  pointer is \<open>None\<close>. Every function that dereferences a pointer returns an option:
  \<open>None\<close> is the undefined behaviour of C, a read or write through a null pointer or
  outside the array. A C string at index \<open>p\<close> is the run of characters from \<open>p\<close> up to
  the first NUL of the array.
\<close>

type_synonym buffer = "char list"
type_synonym pointer = "nat option"

definition NUL :: char where
  "NUL = CHR 0x00"

definition rd :: "buffer \<Rightarrow> nat \<Rightarrow> char option" where
  "rd b i = (if i < length b then Some (b ! i) else None)"

definition wr :: "buffer \<Rightarrow> nat \<Rightarrow> char \<Rightarrow> buffer option" where
  "wr b i c = (if i < length b then Some (b[i := c]) else None)"

text \<open>\<open>isspace\<close> of the C locale: space, and the control characters 9 to 13.\<close>

definition isspace :: "char \<Rightarrow> bool" where
  "isspace c = (c = CHR '' '' \<or> c = CHR 0x09 \<or> c = CHR 0x0A \<or> c = CHR 0x0B
                \<or> c = CHR 0x0C \<or> c = CHR 0x0D)"

text \<open>
  \<open>scan P b i\<close> is the loop \<open>while (P(b[i])) i++;\<close>: the first index from \<open>i\<close> on
  whose character fails \<open>P\<close>, or \<open>None\<close> when the loop runs off the array.
\<close>

function scan :: "(char \<Rightarrow> bool) \<Rightarrow> buffer \<Rightarrow> nat \<Rightarrow> nat option" where
  "scan P b i = (if i < length b then (if P (b ! i) then scan P b (Suc i) else Some i)
                 else None)"
  by pat_completeness auto
termination
  by (relation "measure (\<lambda>(P, b, i). length b - i)") auto

declare scan.simps [simp del]

definition strlen :: "buffer \<Rightarrow> nat \<Rightarrow> nat option" where
  "strlen b s = map_option (\<lambda>e. e - s) (scan (\<lambda>c. c \<noteq> NUL) b s)"

text \<open>
  The delimiter set \<open>s2\<close> is a string literal of the source; it is given by its
  characters, without the terminator. Both spans stop at the terminator of \<open>s1\<close>.
\<close>

definition strspn :: "buffer \<Rightarrow> nat \<Rightarrow> string \<Rightarrow> nat option" where
  "strspn b s s2 = map_option (\<lambda>e. e - s) (scan (\<lambda>c. c \<noteq> NUL \<and> c \<in> set s2) b s)"

definition strcspn :: "buffer \<Rightarrow> nat \<Rightarrow> string \<Rightarrow> nat option" where
  "strcspn b s s2 = map_option (\<lambda>e. e - s) (scan (\<lambda>c. c \<noteq> NUL \<and> c \<notin> set s2) b s)"

text \<open>The C string at \<open>p\<close>, when there is one.\<close>

definition cstr :: "buffer \<Rightarrow> nat \<Rightarrow> string option" where
  "cstr b p = map_option (\<lambda>n. take n (drop p b)) (strlen b p)"

section \<open>mos\_trim\<close>

text \<open>The backward loop \<open>while (ptr > s && isspace(*ptr)) ptr--;\<close>.\<close>

function trim_back :: "buffer \<Rightarrow> nat \<Rightarrow> nat \<Rightarrow> nat option" where
  "trim_back b s ptr =
     (if ptr > s then
        (case rd b ptr of
           None \<Rightarrow> None
         | Some c \<Rightarrow> if isspace c then trim_back b s (ptr - 1) else Some ptr)
      else Some ptr)"
  by pat_completeness auto
termination
  by (relation "measure (\<lambda>(b, s, ptr). ptr)") auto

declare trim_back.simps [simp del]

text \<open>
  \<open>mos_trim\<close> returns the buffer as it has written it and the pointer to the start of
  the trimmed string. In \<open>ptr = s + strlen(s) - 1\<close> the pointer is \<open>s - 1\<close> when the
  string at \<open>s\<close> is empty; this is only reached after \<open>s\<close> has been advanced at least
  once, so the index stays a natural number.
\<close>

definition mos_trim :: "buffer \<Rightarrow> pointer \<Rightarrow> (buffer \<times> pointer) option" where
  "mos_trim b s =
     (case s of
        None \<Rightarrow> Some (b, None)
      | Some p \<Rightarrow>
          (case rd b p of
             None \<Rightarrow> None
           | Some c \<Rightarrow>
               if c = NUL then Some (b, Some p)
               else
                 (case scan (\<lambda>c. isspace c \<or> c = CHR ''*'') b p of
                    None \<Rightarrow> None
                  | Some s' \<Rightarrow>
                      (case strlen b s' of
                         None \<Rightarrow> None
                       | Some n \<Rightarrow>
                           (case trim_back b s' (s' + n - 1) of
                              None \<Rightarrow> None
                            | Some ptr \<Rightarrow>
                                (case wr b (ptr + 1) NUL of
                                   None \<Rightarrow> None
                                 | Some b' \<Rightarrow> Some (b', Some s')))))))"

section \<open>mos\_strtok\_r\<close>

text \<open>
  The third argument of the source is the address of the resume cursor; the model takes
  the cursor's value and returns the new one: the result is the buffer, the token pointer
  (\<open>None\<close> for "no token") and the cursor.
\<close>

definition mos_strtok_r ::
  "buffer \<Rightarrow> pointer \<Rightarrow> string \<Rightarrow> pointer \<Rightarrow> (buffer \<times> pointer \<times> pointer) option" where
  "mos_strtok_r b s1 s2 ptr =
     (case (if s1 = None then ptr else s1) of
        None \<Rightarrow> None
      | Some s \<Rightarrow>
          (case rd b s of
             None \<Rightarrow> None
           | Some c \<Rightarrow>
               if c = NUL then Some (b, None, Some s)
               else
                 (case strspn b s s2 of
                    None \<Rightarrow> None
                  | Some n \<Rightarrow>
                      (case rd b (s + n) of
                         None \<Rightarrow> None
                       | Some c \<Rightarrow>
                           if c = NUL then Some (b, None, Some (s + n))
                           else
                             (case strcspn b (s + n) s2 of
                                None \<Rightarrow> None
                              | Some m \<Rightarrow>
                                  (case rd b (s + n + m) of
                                     None \<Rightarrow> None
                                   | Some c \<Rightarrow>
                                       if c = NUL
                                       then Some (b, Some (s + n), Some (s + n + m))
                                       else
                                         (case wr b (s + n + m) NUL of
                                            None \<Rightarrow> None
                                          | Some b' \<Rightarrow>
                                              Some (b', Some (s + n),
                                                    Some (s + n + m + 1)))))))))"

text \<open>
  What the description of \<open>mos_trim\<close> says of the text it returns: leading white space and
  asterisks are dropped, then trailing white space; an asterisk at the end stays.
\<close>

definition trim_spec :: "string \<Rightarrow> string" where
  "trim_spec str =
     rev (dropWhile isspace (rev (dropWhile (\<lambda>c. isspace c \<or> c = CHR ''*'') str)))"

section \<open>Result codes, machine state and collaborators\<close>

text \<open>
  The result codes are the \<open>FRESULT\<close> values of FatFS followed by the codes of MOS; their
  numbers are the indices of their messages in the table \<open>mos_errors\<close>.
\<close>

definition FR_OK :: int where "FR_OK = 0"
definition FR_DISK_ERR :: int where "FR_DISK_ERR = 1"
definition FR_INT_ERR :: int where "FR_INT_ERR = 2"
definition FR_NO_FILE :: int where "FR_NO_FILE = 4"
definition FR_NO_PATH :: int where "FR_NO_PATH = 5"
definition FR_INVALID_OBJECT :: int where "FR_INVALID_OBJECT = 9"
definition FR_INVALID_PARAMETER :: int where "FR_INVALID_PARAMETER = 19"
definition MOS_INVALID_COMMAND :: int where "MOS_INVALID_COMMAND = 20"
definition MOS_INVALID_EXECUTABLE :: int where "MOS_INVALID_EXECUTABLE = 21"
definition MOS_OVERLAPPING_SYSTEM :: int where "MOS_OVERLAPPING_SYSTEM = 24"

lemmas result_codes =
  FR_OK_def FR_DISK_ERR_def FR_INT_ERR_def FR_NO_FILE_def FR_NO_PATH_def
  FR_INVALID_OBJECT_def FR_INVALID_PARAMETER_def MOS_INVALID_COMMAND_def
  MOS_INVALID_EXECUTABLE_def MOS_OVERLAPPING_SYSTEM_def

text \<open>
  Addresses and \<open>UINT24\<close> values are 24-bit words (\<open>unsigned int\<close> of the eZ80), bytes are
  8-bit words. A file object carries what \<open>f_size\<close> reads, and its read/write position.
\<close>

type_synonym memory = "24 word \<Rightarrow> 8 word"

record FIL =
  objsize :: "32 word"
  fptr :: "32 word"

record t_mosFileObject =
  free :: "8 word"
  fileObject :: FIL

text \<open>
  The calls that leave \<open>mos.c\<close> are recorded in a trace, in the order they are made, so
  that "no read is performed" and "the candidates are tried in this order" are
  statements about the state. \<open>NullDescriptorRead\<close> records the evaluation of
  \<open>cmd->func\<close> with \<open>cmd\<close> a null pointer.
\<close>

datatype event =
    NullDescriptorRead
  | Fopen string
  | Fread "24 word" "24 word"
  | Fwrite "24 word" "24 word"
  | Flseek "32 word"
  | Fclose

record mos =
  buf :: buffer
  mos_strtok_ptr :: pointer
  mem :: memory
  mosFileObjects :: "nat \<Rightarrow> t_mosFileObject"
  trace :: "event list"

text \<open>
  What \<open>mos.c\<close> takes from its headers and from other modules: the address constants and
  \<open>MOS_maxOpenFiles\<close> of \<open>defines.h\<close>, the address of the file object of each slot, the
  matcher \<open>pmatch\<close> with the flags \<open>MATCH_COMMANDS\<close>, and the FatFS calls. \<open>f_open\<close>
  is always called with \<open>FA_READ\<close> here; it yields its result code and the file object.
  \<open>f_read\<close> yields its code, the count of bytes read, the file object and the memory.
\<close>

record platform =
  MOS_starLoadAddress :: "24 word"
  MOS_defaultLoadAddress :: "24 word"
  MOS_externLastRAMaddress :: "24 word"
  MOS_systemAddress :: "24 word"
  MOS_maxOpenFiles :: nat
  fileObject_address :: "nat \<Rightarrow> 24 word"
  pmatch :: "string \<Rightarrow> string \<Rightarrow> int"
  f_open :: "string \<Rightarrow> int \<times> FIL"
  f_read :: "FIL \<Rightarrow> 24 word \<Rightarrow> 24 word \<Rightarrow> memory \<Rightarrow> int \<times> 24 word \<times> FIL \<times> memory"
  f_write :: "FIL \<Rightarrow> 24 word \<Rightarrow> 24 word \<Rightarrow> memory \<Rightarrow> int \<times> 24 word \<times> FIL"
  f_lseek :: "FIL \<Rightarrow> 32 word \<Rightarrow> int \<times> FIL"

text \<open>
  A function returns through a tail call in several places (\<open>return func(...)\<close>,
  \<open>return exec16(...)\<close>); the callee is outside \<open>mos.c\<close>, so the outcome names the call
  and its arguments. A function pointer is the name of the function, \<open>None\<close> is null.
\<close>

datatype outcome =
    Return int
  | CallHandler string pointer
  | CallExec16 "24 word" pointer
  | CallExec24 "24 word" pointer

section \<open>mos\_strtok, mos\_parseNumber and mos\_parseString\<close>









section \<open>mos\_execMode, mos\_runBin and mos\_LOAD\<close>

text \<open>The signature is the bytes \<open>'M'\<close>, \<open>'O'\<close>, \<open>'S'\<close> at offset 0x40, the mode byte at 0x44.\<close>

definition mos_execMode :: "memory \<Rightarrow> 24 word \<Rightarrow> 8 word" where
  "mos_execMode m ptr =
     (if m (ptr + 0x40) = 0x4D \<and> m (ptr + 0x41) = 0x4F \<and> m (ptr + 0x42) = 0x53
      then m (ptr + 0x44)
      else 0xFF)"

definition mos_runBin :: "mos \<Rightarrow> 24 word \<Rightarrow> outcome" where
  "mos_runBin st addr =
     (let mode = mos_execMode (mem st) addr in
      if mode = 0 then CallExec16 addr (mos_strtok_ptr st)
      else if mode = 1 then CallExec24 addr (mos_strtok_ptr st)
      else Return MOS_INVALID_EXECUTABLE)"

text \<open>
  In \<open>mos_LOAD\<close> the file size is a 32-bit value, compared with the 24-bit \<open>size\<close> (here
  \<open>sz\<close>) at 32 bits and stored into it by truncation: \<open>load_size\<close> is the value of \<open>size\<close>
  after the first \<open>if\<close>. The sum \<open>address + size\<close> of the check is a 24-bit sum.
\<close>

definition load_size :: "24 word \<Rightarrow> 32 word \<Rightarrow> 24 word" where
  "load_size sz fSize =
     (if sz \<noteq> 0 then (if fSize < ucast sz then ucast fSize else sz) else ucast fSize)"

definition mos_LOAD :: "platform \<Rightarrow> string \<Rightarrow> 24 word \<Rightarrow> 24 word \<Rightarrow> mos \<Rightarrow> int \<times> mos" where
  "mos_LOAD p filename address sz st =
     (let (fr, fil) = f_open p filename;
          st1 = st\<lparr>trace := trace st @ [Fopen filename]\<rparr>;
          (fr', st2) =
            (if fr = FR_OK then
               (let fSize = objsize fil;
                    size' = load_size sz fSize
                in if address \<le> MOS_externLastRAMaddress p
                      \<and> address + size' > MOS_systemAddress p
                   then (MOS_OVERLAPPING_SYSTEM, st1)
                   else (let (r, br, fil', m') = f_read p fil address size' (mem st1)
                         in (r, st1\<lparr>mem := m', trace := trace st1 @ [Fread address size']\<rparr>)))
             else (fr, st1))
      in (fr', st2\<lparr>trace := trace st2 @ [Fclose]\<rparr>))"

section \<open>The command table and mos\_exec\<close>

text \<open>
  A command descriptor with its name and its function; the usage and help strings play no
  part in dispatch and are left out. The table is that of a build without \<open>DEBUG\<close>.
\<close>

record t_mosCommand =
  name :: string
  func :: "string option"

definition mosCommands :: "t_mosCommand list" where
  "mosCommands =
    [\<lparr>name = ''.'', func = Some ''mos_cmdDIR''\<rparr>,
     \<lparr>name = ''CAT'', func = Some ''mos_cmdDIR''\<rparr>,
     \<lparr>name = ''CD'', func = Some ''mos_cmdCD''\<rparr>,
     \<lparr>name = ''CDIR'', func = Some ''mos_cmdCD''\<rparr>,
     \<lparr>name = ''CLS'', func = Some ''mos_cmdCLS''\<rparr>,
     \<lparr>name = ''COPY'', func = Some ''mos_cmdCOPY''\<rparr>,
     \<lparr>name = ''CP'', func = Some ''mos_cmdCOPY''\<rparr>,
     \<lparr>name = ''CREDITS'', func = Some ''mos_cmdCREDITS''\<rparr>,
     \<lparr>name = ''DELETE'', func = Some ''mos_cmdDEL''\<rparr>,
     \<lparr>name = ''DIR'', func = Some ''mos_cmdDIR''\<rparr>,
     \<lparr>name = ''DISC'', func = Some ''mos_cmdDISC''\<rparr>,
     \<lparr>name = ''ECHO'', func = Some ''mos_cmdECHO''\<rparr>,
     \<lparr>name = ''ERASE'', func = Some ''mos_cmdDEL''\<rparr>,
     \<lparr>name = ''EXEC'', func = Some ''mos_cmdEXEC''\<rparr>,
     \<lparr>name = ''HELP'', func = Some ''mos_cmdHELP''\<rparr>,
     \<lparr>name = ''JMP'', func = Some ''mos_cmdJMP''\<rparr>,
     \<lparr>name = ''LOAD'', func = Some ''mos_cmdLOAD''\<rparr>,
     \<lparr>name = ''LS'', func = Some ''mos_cmdDIR''\<rparr>,
     \<lparr>name = ''HOTKEY'', func = Some ''mos_cmdHOTKEY''\<rparr>,
     \<lparr>name = ''MEM'', func = Some ''mos_cmdMEM''\<rparr>,
     \<lparr>name = ''MKDIR'', func = Some ''mos_cmdMKDIR''\<rparr>,
     \<lparr>name = ''MOUNT'', func = Some ''mos_cmdMOUNT''\<rparr>,
     \<lparr>name = ''MOVE'', func = Some ''mos_cmdREN''\<rparr>,
     \<lparr>name = ''MV'', func = Some ''mos_cmdREN''\<rparr>,
     \<lparr>name = ''PRINTF'', func = Some ''mos_cmdPRINTF''\<rparr>,
     \<lparr>name = ''RENAME'', func = Some ''mos_cmdREN''\<rparr>,
     \<lparr>name = ''RM'', func = Some ''mos_cmdDEL''\<rparr>,
     \<lparr>name = ''RUN'', func = Some ''mos_cmdRUN''\<rparr>,
     \<lparr>name = ''SAVE'', func = Some ''mos_cmdSAVE''\<rparr>,
     \<lparr>name = ''Set'', func = Some ''mos_cmdSET''\<rparr>,
     \<lparr>name = ''SetEval'', func = Some ''mos_cmdSETEVAL''\<rparr>,
     \<lparr>name = ''SetMacro'', func = Some ''mos_cmdSETMACRO''\<rparr>,
     \<lparr>name = ''Show'', func = Some ''mos_cmdSHOW''\<rparr>,
     \<lparr>name = ''TIME'', func = Some ''mos_cmdTIME''\<rparr>,
     \<lparr>name = ''TYPE'', func = Some ''mos_cmdTYPE''\<rparr>,
     \<lparr>name = ''UNSET'', func = Some ''mos_cmdUNSET''\<rparr>,
     \<lparr>name = ''VDU'', func = Some ''mos_cmdVDU''\<rparr>]"

text \<open>
  \<open>mos_getCommand\<close> returns the first descriptor whose name \<open>pmatch\<close> accepts, or the
  null pointer. The outer option is the undefined behaviour of matching a pointer that
  holds no string.
\<close>

definition mos_getCommand :: "platform \<Rightarrow> buffer \<Rightarrow> pointer \<Rightarrow> t_mosCommand option option" where
  "mos_getCommand p b ptr =
     (case ptr of
        None \<Rightarrow> None
      | Some q \<Rightarrow>
          (case cstr b q of
             None \<Rightarrow> None
           | Some tok \<Rightarrow> Some (find (\<lambda>c. pmatch p tok (name c) = 0) mosCommands)))"

text \<open>
  The test of the first \<open>if\<close> of \<open>mos_exec\<close>; the character after a bar is read only
  when the first one is a bar.
\<close>

definition is_comment :: "buffer \<Rightarrow> nat \<Rightarrow> bool option" where
  "is_comment b q =
     (case rd b q of
        None \<Rightarrow> None
      | Some c \<Rightarrow>
          if c = CHR ''#'' \<or> c = NUL then Some True
          else if c = CHR ''|'' then map_option (\<lambda>d. d = CHR '' '') (rd b (q + 1))
          else Some False)"

text \<open>
  The search for the program file, the body of the innermost \<open>else\<close> of \<open>mos_exec\<close>, with
  the name of the command as a string: \<open>sprintf\<close> builds each path from it.
\<close>

definition mos_exec_search :: "platform \<Rightarrow> mos \<Rightarrow> string \<Rightarrow> bool \<Rightarrow> outcome \<times> mos" where
  "mos_exec_search p st nm in_mos =
     (let (fr, st1) = mos_LOAD p (''/mos/'' @ nm @ ''.bin'') (MOS_starLoadAddress p) 0 st in
      if fr = FR_OK then (mos_runBin st1 (MOS_starLoadAddress p), st1)
      else if fr = MOS_OVERLAPPING_SYSTEM then (Return fr, st1)
      else if in_mos then
        (let (fr, st2) = mos_LOAD p (nm @ ''.bin'') (MOS_defaultLoadAddress p) 0 st1 in
         if fr = FR_OK then (mos_runBin st2 (MOS_defaultLoadAddress p), st2)
         else if fr = MOS_OVERLAPPING_SYSTEM then (Return fr, st2)
         else
           (let (fr, st3) = mos_LOAD p (''/bin/'' @ nm @ ''.bin'') (MOS_defaultLoadAddress p) 0 st2 in
            if fr = FR_OK then (mos_runBin st3 (MOS_defaultLoadAddress p), st3)
            else if fr = MOS_OVERLAPPING_SYSTEM then (Return fr, st3)
            else if fr = FR_NO_FILE \<or> fr = FR_NO_PATH then (Return MOS_INVALID_COMMAND, st3)
            else (Return fr, st3)))
      else if fr = FR_NO_FILE \<or> fr = FR_NO_PATH then (Return MOS_INVALID_COMMAND, st1)
      else (Return fr, st1))"

text \<open>
  \<open>mos_exec\<close>. The descriptor's field \<open>func\<close> is read before the descriptor is compared
  with the null pointer; with a null descriptor the read is recorded in the trace and
  its value is never used, since the test \<open>cmd != NULL && func != 0\<close> fails at \<open>cmd\<close>.
\<close>

definition mos_exec :: "platform \<Rightarrow> mos \<Rightarrow> pointer \<Rightarrow> bool \<Rightarrow> (outcome \<times> mos) option" where
  "mos_exec p st buffer in_mos =
     (case mos_trim (buf st) buffer of
        None \<Rightarrow> None
      | Some (b1, ptr) \<Rightarrow>
          (case ptr of
             None \<Rightarrow> Some (Return 0, st\<lparr>buf := b1\<rparr>)
           | Some q \<Rightarrow>
               (case is_comment b1 q of
                  None \<Rightarrow> None
                | Some True \<Rightarrow> Some (Return FR_OK, st\<lparr>buf := b1\<rparr>)
                | Some False \<Rightarrow>
                    (case mos_strtok_r b1 (Some q) '' '' (mos_strtok_ptr st) of
                       None \<Rightarrow> None
                     | Some (b2, tok, cur) \<Rightarrow>
                         (case mos_getCommand p b2 tok of
                            None \<Rightarrow> None
                          | Some cmd \<Rightarrow>
                              let st2 = st\<lparr>buf := b2, mos_strtok_ptr := cur,
                                           trace := trace st @
                                             (if cmd = None then [NullDescriptorRead] else [])\<rparr>
                              in (case (case cmd of None \<Rightarrow> None | Some c \<Rightarrow> func c) of
                                    Some f \<Rightarrow> Some (CallHandler f (mos_strtok_ptr st2), st2)
                                  | None \<Rightarrow>
                                      (case tok of
                                         None \<Rightarrow> None
                                       | Some t \<Rightarrow>
                                           (case cstr b2 t of
                                              None \<Rightarrow> None
                                            | Some nm \<Rightarrow>
                                                if length nm > 246
                                                then Some (Return MOS_INVALID_COMMAND, st2)
                                                else Some (mos_exec_search p st2 nm in_mos)))))))))"

section \<open>The file handle calls\<close>

text \<open>
  A handle is a \<open>UINT8\<close>, the slot it names is \<open>fh - 1\<close>. \<open>mos_GETFIL\<close> returns the
  address of the slot's file object or 0; its callers cast the address back to a pointer,
  which is then the file object of slot \<open>fh - 1\<close>.
\<close>

definition mos_GETFIL :: "platform \<Rightarrow> mos \<Rightarrow> 8 word \<Rightarrow> 24 word" where
  "mos_GETFIL p st fh =
     (if fh > 0 \<and> unat fh \<le> MOS_maxOpenFiles p then
        (if free (mosFileObjects st (unat fh - 1)) > 0
         then fileObject_address p (unat fh - 1)
         else 0)
      else 0)"

definition mos_FREAD :: "platform \<Rightarrow> mos \<Rightarrow> 8 word \<Rightarrow> 24 word \<Rightarrow> 24 word \<Rightarrow> 24 word \<times> mos" where
  "mos_FREAD p st fh buffer btr =
     (let fo = mos_GETFIL p st fh in
      if fo > 0 then
        (let i = unat fh - 1;
             mfo = mosFileObjects st i;
             (fr, br, fil', m') = f_read p (fileObject mfo) buffer btr (mem st);
             st' = st\<lparr>mem := m',
                      mosFileObjects := (mosFileObjects st)(i := mfo\<lparr>fileObject := fil'\<rparr>),
                      trace := trace st @ [Fread buffer btr]\<rparr>
         in if fr = FR_OK then (br, st') else (0, st'))
      else (0, st))"

definition mos_FWRITE :: "platform \<Rightarrow> mos \<Rightarrow> 8 word \<Rightarrow> 24 word \<Rightarrow> 24 word \<Rightarrow> 24 word \<times> mos" where
  "mos_FWRITE p st fh buffer btw =
     (let fo = mos_GETFIL p st fh in
      if fo > 0 then
        (let i = unat fh - 1;
             mfo = mosFileObjects st i;
             (fr, bw, fil') = f_write p (fileObject mfo) buffer btw (mem st);
             st' = st\<lparr>mosFileObjects := (mosFileObjects st)(i := mfo\<lparr>fileObject := fil'\<rparr>),
                      trace := trace st @ [Fwrite buffer btw]\<rparr>
         in if fr = FR_OK then (bw, st') else (0, st'))
      else (0, st))"

definition mos_FLSEEK :: "platform \<Rightarrow> mos \<Rightarrow> 8 word \<Rightarrow> 32 word \<Rightarrow> int \<times> mos" where
  "mos_FLSEEK p st fh offset =
     (let fo = mos_GETFIL p st fh in
      if fo > 0 then
        (let i = unat fh - 1;
             mfo = mosFileObjects st i;
             (fr, fil') = f_lseek p (fileObject mfo) offset
         in (fr, st\<lparr>mosFileObjects := (mosFileObjects st)(i := mfo\<lparr>fileObject := fil'\<rparr>),
                    trace := trace st @ [Flseek offset]\<rparr>))
      else (FR_INVALID_OBJECT, st))"

section \<open>The state at start-up\<close>

text \<open>
  The statics of \<open>mos.c\<close> are zero when the program starts: the cursor is null and no
  file slot is in use. \<open>mos_boot b\<close> is that state with the line \<open>b\<close> in the buffer.
\<close>

definition zero_memory :: memory where
  "zero_memory = (\<lambda>a. 0)"

definition closed_files :: "nat \<Rightarrow> t_mosFileObject" where
  "closed_files = (\<lambda>i. \<lparr>free = 0, fileObject = \<lparr>objsize = 0, fptr = 0\<rparr>\<rparr>)"

definition mos_boot :: "buffer \<Rightarrow> mos" where
  "mos_boot b = \<lparr>buf = b, mos_strtok_ptr = None, mem = zero_memory,
                 mosFileObjects = closed_files, trace = []\<rparr>"

section \<open>The system variables and mos\_cmdUNSET\<close>

text \<open>
  The variables are nodes of a singly linked list kept in a store of nodes: a pointer
  to a node is its address, \<open>None\<close> is the null pointer, and the head of the list is
  \<open>mosSystemVariables\<close>. A payload is a text (string and macro variables), a number,
  the pair of accessors of a code variable (by name), or a buffer that has been freed.
  The fields of a node are \<open>label\<close>, \<open>type\<close>, \<open>value\<close> and \<open>next\<close> in the C structure;
  they carry the prefix \<open>var_\<close> here, since \<open>value\<close> and \<open>next\<close> are words of Isabelle.
\<close>

datatype MOSVARTYPE = MOS_VAR_STRING | MOS_VAR_NUMBER | MOS_VAR_MACRO | MOS_VAR_CODE

datatype payload = Text string | Number int | Accessors string | Released

record t_mosSystemVariable =
  var_label :: string
  var_type :: MOSVARTYPE
  var_value :: payload
  var_next :: "nat option"






definition free_payload :: "t_mosSystemVariable \<Rightarrow> t_mosSystemVariable" where
  "free_payload v =
     (if var_type v = MOS_VAR_STRING \<or> var_type v = MOS_VAR_MACRO
      then v\<lparr>var_value := Released\<rparr> else v)"




text \<open>
  The sequence of a store: \<open>var_path vs h as t\<close> says that the links lead from the pointer
  \<open>h\<close> through the nodes \<open>as\<close>, in this order, to the pointer \<open>t\<close>. The store holds the
  variables \<open>as\<close> when the path from the head through \<open>as\<close> ends at the null pointer.
\<close>

fun var_path ::
  "(nat \<Rightarrow> t_mosSystemVariable option) \<Rightarrow> nat option \<Rightarrow> nat list \<Rightarrow> nat option \<Rightarrow> bool" where
  "var_path vs h [] t = (h = t)"
| "var_path vs h (a # as) t =
     (h = Some a \<and> (case vs a of None \<Rightarrow> False | Some v \<Rightarrow> var_path vs (var_next v) as t))"



text \<open>
  Two stores agree on the names when every node has the same label and type in both, and
  on an entry when it has the same label, type and payload in both; the links may differ.
\<close>

definition names_kept ::
  "(nat \<Rightarrow> t_mosSystemVariable option) \<Rightarrow> (nat \<Rightarrow> t_mosSystemVariable option) \<Rightarrow> bool" where
  "names_kept vs vs' =
     (\<forall>a. map_option (\<lambda>v. (var_label v, var_type v)) (vs' a)
          = map_option (\<lambda>v. (var_label v, var_type v)) (vs a))"

definition entry_kept ::
  "(nat \<Rightarrow> t_mosSystemVariable option) \<Rightarrow> (nat \<Rightarrow> t_mosSystemVariable option) \<Rightarrow> nat \<Rightarrow> bool" where
  "entry_kept vs vs' a =
     (map_option (\<lambda>v. (var_label v, var_type v, var_value v)) (vs' a)
        = map_option (\<lambda>v. (var_label v, var_type v, var_value v)) (vs a))"

section \<open>The search as a loop over candidates\<close>

text \<open>
  The search of \<open>mos_exec\<close> said as a loop, for comparison with the code: the candidates
  are tried in order; a load that succeeds is run, a load that overlaps the system area
  is returned, any other result moves on to the next candidate; when none is left the
  result of the last load decides, not-found becoming "invalid command".
\<close>

definition search_paths :: "platform \<Rightarrow> string \<Rightarrow> bool \<Rightarrow> (string \<times> 24 word) list" where
  "search_paths p nm in_mos =
     (''/mos/'' @ nm @ ''.bin'', MOS_starLoadAddress p) #
     (if in_mos
      then [(nm @ ''.bin'', MOS_defaultLoadAddress p),
            (''/bin/'' @ nm @ ''.bin'', MOS_defaultLoadAddress p)]
      else [])"

fun search_candidates ::
  "platform \<Rightarrow> (string \<times> 24 word) list \<Rightarrow> int \<Rightarrow> mos \<Rightarrow> outcome \<times> mos" where
  "search_candidates p [] fr st =
     (if fr = FR_NO_FILE \<or> fr = FR_NO_PATH then (Return MOS_INVALID_COMMAND, st)
      else (Return fr, st))"
| "search_candidates p ((path, addr) # cs) fr st =
     (let (fr', st') = mos_LOAD p path addr 0 st in
      if fr' = FR_OK then (mos_runBin st' addr, st')
      else if fr' = MOS_OVERLAPPING_SYSTEM then (Return fr', st')
      else search_candidates p cs fr' st')"

section \<open>A platform for the examples\<close>

text \<open>
  Modelled from the spec: \<open>pmatch\<close> of \<open>strings.c\<close> with the flags \<open>MATCH_COMMANDS\<close>
  is not in \<open>mos.c\<close>. The spec has it case-insensitive and abbreviation-aware: the typed
  token matches a descriptor when it is a prefix of the descriptor's name; the result is 0
  for a match. Letters are compared by the code of their upper case. It is used in the
  examples only; every theorem holds for any matcher.
\<close>

definition upper_code :: "char \<Rightarrow> nat" where
  "upper_code c =
     (let n = (of_char c :: nat) in if 97 \<le> n \<and> n \<le> 122 then n - 32 else n)"

definition pmatch_spec :: "string \<Rightarrow> string \<Rightarrow> int" where
  "pmatch_spec tok nm =
     (if map upper_code tok = take (length tok) (map upper_code nm) then 0 else 1)"

text \<open>
  The example platform has a card whose files are listed with the result of opening them
  and their size; a path not listed is not found. Its reads succeed and its addresses
  are examples.
\<close>

definition example_open :: "(string \<times> int \<times> 32 word) list \<Rightarrow> string \<Rightarrow> int \<times> FIL" where
  "example_open files path =
     (case map_of files path of
        None \<Rightarrow> (FR_NO_FILE, \<lparr>objsize = 0, fptr = 0\<rparr>)
      | Some (r, n) \<Rightarrow> (r, \<lparr>objsize = n, fptr = 0\<rparr>))"

definition example_platform :: "(string \<times> int \<times> 32 word) list \<Rightarrow> platform" where
  "example_platform files =
     \<lparr>MOS_starLoadAddress = 0x0B0000,
      MOS_defaultLoadAddress = 0x040000,
      MOS_externLastRAMaddress = 0x0BFFFF,
      MOS_systemAddress = 0x0BC000,
      MOS_maxOpenFiles = 8,
      fileObject_address = (\<lambda>i. 0x0BD000 + 0x100 * of_nat i),
      pmatch = pmatch_spec,
      f_open = example_open files,
      f_read = (\<lambda>fil a n m. (FR_OK, n, fil, m)),
      f_write = (\<lambda>fil a n m. (FR_OK, n, fil)),
      f_lseek = (\<lambda>fil off. (FR_OK, fil\<lparr>fptr := off\<rparr>))\<rparr>"





section \<open>Facts about the string primitives\<close>


lemma scan_Some_iff:
  "scan P b i = Some e \<longleftrightarrow> i \<le> e \<and> e < length b \<and> \<not> P (b ! e) \<and> (\<forall>k. i \<le> k \<and> k < e \<longrightarrow> P (b ! k))"
proof (induction P b i rule: scan.induct)
  case (1 P b i)
  show ?case
  proof (cases "i < length b")
    case False
    then show ?thesis by (simp add: scan.simps [of P b i])
  next
    case True
    show ?thesis
    proof (cases "P (b ! i)")
      case False
      with True show ?thesis
        apply (simp add: scan.simps [of P b i])
        by (metis le_antisym le_refl nat_less_le)
    next
      case Pi: True
      have "scan P b i = scan P b (Suc i)" using True Pi by (simp add: scan.simps [of P b i])
      also have "\<dots> = Some e \<longleftrightarrow> Suc i \<le> e \<and> e < length b \<and> \<not> P (b ! e) \<and> (\<forall>k. Suc i \<le> k \<and> k < e \<longrightarrow> P (b ! k))"
        using 1 True Pi by simp
      also have "\<dots> \<longleftrightarrow> i \<le> e \<and> e < length b \<and> \<not> P (b ! e) \<and> (\<forall>k. i \<le> k \<and> k < e \<longrightarrow> P (b ! k))"
        using Pi by (metis Suc_leI le_antisym le_eq_less_or_eq not_less_eq_eq Suc_leD)
      finally show ?thesis .
    qed
  qed
qed

lemma trim_back_Some:
  "ptr < length b \<Longrightarrow> \<exists>q. trim_back b s ptr = Some q"
  apply (induction b s ptr rule: trim_back.induct)
  subgoal for b s ptr
    by (simp add: trim_back.simps [of b s ptr] rd_def)
  done

lemma trim_back_props:
  "trim_back b s ptr = Some q \<Longrightarrow>
     q \<le> ptr \<and> (s \<le> ptr \<longrightarrow> s \<le> q) \<and> (ptr \<le> s \<longrightarrow> q = ptr) \<and> (s < q \<longrightarrow> \<not> isspace (b ! q)) \<and> (\<forall>k. q < k \<and> k \<le> ptr \<longrightarrow> isspace (b ! k))"
proof (induction b s ptr rule: trim_back.induct)
  case (1 b s ptr)
  show ?case
  proof (cases "ptr > s")
    case False
    with 1(2) show ?thesis by (auto simp add: trim_back.simps [of b s ptr])
  next
    case True
    show ?thesis
    proof (cases "rd b ptr")
      case None
      with True 1(2) show ?thesis by (simp add: trim_back.simps [of b s ptr])
    next
      case (Some c)
      then have c: "c = b ! ptr" by (simp add: rd_def split: if_splits)
      show ?thesis
      proof (cases "isspace c")
        case False
        with True Some 1(2) c show ?thesis by (auto simp add: trim_back.simps [of b s ptr])
      next
        case sp: True
        then have rec: "trim_back b s (ptr - 1) = Some q"
          using True Some 1(2) by (simp add: trim_back.simps [of b s ptr])
        note ih = 1(1) [OF True Some sp rec]
        from ih have i1: "q \<le> ptr - 1" by blast
        from ih have i2: "s \<le> ptr - 1 \<longrightarrow> s \<le> q" by blast
        from ih have c': "s < q \<longrightarrow> \<not> isspace (b ! q)" by blast
        from ih have i5: "\<forall>k. q < k \<and> k \<le> ptr - 1 \<longrightarrow> isspace (b ! k)" by blast
        have a: "q \<le> ptr" using i1 by arith
        have b: "s \<le> q" using i2 True by arith
        have d: "isspace (b ! k)" if "q < k" "k \<le> ptr" for k
        proof (cases "k = ptr")
          case True
          then show ?thesis using sp c by simp
        next
          case False
          then have "k \<le> ptr - 1" using that by simp
          then show ?thesis using i5 that by blast
        qed
        show ?thesis using a b c' d True by auto
      qed
    qed
  qed
qed

lemma scan_shape:
  assumes "\<forall>x\<in>set xs. P x" "\<not> P c"
  shows "scan P (pre @ xs @ c # post) (length pre) = Some (length pre + length xs)"
proof -
  have "\<forall>k. length pre \<le> k \<and> k < length pre + length xs \<longrightarrow> P ((pre @ xs @ c # post) ! k)"
    using assms(1) by (auto simp: nth_append)
  moreover have "(pre @ xs @ c # post) ! (length pre + length xs) = c"
    by (simp add: nth_append)
  ultimately show ?thesis
    using assms(2) by (simp add: scan_Some_iff)
qed

lemma strlen_shape:
  assumes "NUL \<notin> set xs"
  shows "strlen (pre @ xs @ NUL # post) (length pre) = Some (length xs)"
proof -
  have "scan (\<lambda>c. c \<noteq> NUL) (pre @ xs @ NUL # post) (length pre) = Some (length pre + length xs)"
    by (rule scan_shape) (use assms in auto)
  then show ?thesis by (simp add: strlen_def)
qed

lemma cstr_shape:
  assumes "NUL \<notin> set xs"
  shows "cstr (pre @ xs @ NUL # post) (length pre) = Some xs"
  by (simp add: cstr_def strlen_shape [OF assms])

lemma cstr_SomeD:
  assumes "cstr b p = Some str"
  shows "\<exists>post. b = take p b @ str @ NUL # post \<and> length (take p b) = p \<and> NUL \<notin> set str"
proof -
  from assms obtain e where e: "scan (\<lambda>c. c \<noteq> NUL) b p = Some e" and str: "str = take (e - p) (drop p b)"
    by (auto simp: cstr_def strlen_def)
  from e have pe: "p \<le> e" and el: "e < length b" and be: "b ! e = NUL"
    and nn: "\<forall>k. p \<le> k \<and> k < e \<longrightarrow> b ! k \<noteq> NUL"
    by (auto simp: scan_Some_iff)
  have len: "length str = e - p" using str pe el by simp
  have "drop p b = str @ drop (e - p) (drop p b)"
    using str by (metis append_take_drop_id)
  also have "drop (e - p) (drop p b) = drop e b" using pe by simp
  also have "drop e b = NUL # drop (Suc e) b" using el be by (metis Cons_nth_drop_Suc)
  finally have d: "drop p b = str @ NUL # drop (Suc e) b" .
  have "b = take p b @ drop p b" by simp
  then have b: "b = take p b @ str @ NUL # drop (Suc e) b" using d by metis
  have nul: "NUL \<notin> set str"
  proof
    assume "NUL \<in> set str"
    then obtain i where i: "i < length str" "str ! i = NUL" by (auto simp: in_set_conv_nth)
    have pi: "p + i < e" using i len by arith
    have "str ! i = b ! (p + i)" using str i len pi el by simp
    then have "b ! (p + i) = NUL" using i by simp
    moreover note pi
    ultimately show False using nn by auto
  qed
  show ?thesis using b nul pe el by auto
qed

lemma NUL_not_space [simp]: "\<not> isspace NUL" "NUL \<noteq> CHR ''*''"
  by (simp_all add: isspace_def NUL_def)

lemma rd_shape: "rd (pre @ c # post) (length pre) = Some c"
  by (simp add: rd_def)

lemma wr_shape: "wr (pre @ c # post) (length pre) d = Some (pre @ d # post)"
  by (simp add: wr_def)

lemma trim_back_shape:
  assumes "\<forall>x\<in>set ws. isspace x" "core \<noteq> []" "\<not> isspace (last core)"
  shows "trim_back (pre @ core @ ws @ rest) (length pre) (length pre + length core + length ws - 1)
         = Some (length pre + length core - 1)"
  using assms(1)
proof (induction ws arbitrary: rest rule: rev_induct)
  case Nil
  let ?b = "pre @ core @ rest"
  let ?ptr = "length pre + length core - 1"
  have b: "?b = (pre @ butlast core) @ last core # rest" using assms(2) by simp
  have l: "length (pre @ butlast core) = ?ptr" using assms(2) by (simp add: Suc_leI)
  have "rd ((pre @ butlast core) @ last core # rest) (length (pre @ butlast core)) = Some (last core)"
    by (rule rd_shape)
  then have "rd ?b ?ptr = Some (last core)" using b l by metis
  then show ?case using assms(3) by (subst trim_back.simps) simp
next
  case (snoc w ws)
  let ?b = "pre @ core @ (ws @ [w]) @ rest"
  let ?ptr = "length pre + length core + length ws"
  have b: "?b = (pre @ core @ ws) @ w # rest" by simp
  have "rd ((pre @ core @ ws) @ w # rest) (length (pre @ core @ ws)) = Some w" by (rule rd_shape)
  then have r: "rd ?b ?ptr = Some w" by (simp add: add.assoc)
  have gt: "?ptr > length pre" using assms(2) by (cases core) auto
  have w: "isspace w" using snoc.prems by simp
  have "trim_back ?b (length pre) ?ptr = trim_back ?b (length pre) (?ptr - 1)"
    using r gt w by (subst trim_back.simps) simp
  also have "\<dots> = trim_back (pre @ core @ ws @ (w # rest)) (length pre) (length pre + length core + length ws - 1)"
    by simp
  also have "\<dots> = Some (length pre + length core - 1)"
    using snoc.IH [of "w # rest"] snoc.prems by simp
  finally show ?case by simp
qed

text \<open>split of a string into leading blanks/asterisks, core, trailing blanks\<close>
lemma trim_split:
  "str = takeWhile (\<lambda>c. isspace c \<or> c = CHR ''*'') str @ trim_spec str
         @ rev (takeWhile isspace (rev (dropWhile (\<lambda>c. isspace c \<or> c = CHR ''*'') str)))"
proof -
  let ?t = "dropWhile (\<lambda>c. isspace c \<or> c = CHR ''*'') str"
  have "rev (dropWhile isspace (rev ?t)) @ rev (takeWhile isspace (rev ?t))
        = rev (takeWhile isspace (rev ?t) @ dropWhile isspace (rev ?t))"
    by (simp only: rev_append)
  also have "\<dots> = ?t" by simp
  finally have t: "?t = rev (dropWhile isspace (rev ?t)) @ rev (takeWhile isspace (rev ?t))" by simp
  have "str = takeWhile (\<lambda>c. isspace c \<or> c = CHR ''*'') str @ ?t" by simp
  then show ?thesis unfolding trim_spec_def using t by simp
qed

lemma trim_spec_hd:
  assumes "dropWhile (\<lambda>c. isspace c \<or> c = CHR ''*'') str \<noteq> []"
  shows "trim_spec str \<noteq> [] \<and> \<not> isspace (hd (trim_spec str)) \<and> hd (trim_spec str) \<noteq> CHR ''*''
         \<and> \<not> isspace (last (trim_spec str))"
proof -
  let ?t = "dropWhile (\<lambda>c. isspace c \<or> c = CHR ''*'') str"
  from assms have h: "\<not> (isspace (hd ?t) \<or> hd ?t = CHR ''*'')" by (rule hd_dropWhile)
  have lr: "last (rev ?t) = hd ?t" using assms by (simp add: last_rev)
  have "hd ?t \<in> set (rev ?t)" using assms by simp
  moreover have "\<not> isspace (hd ?t)" using h by simp
  ultimately have ne: "dropWhile isspace (rev ?t) \<noteq> []"
    by (auto simp: dropWhile_eq_Nil_conv)
  have "rev ?t = takeWhile isspace (rev ?t) @ dropWhile isspace (rev ?t)" by simp
  then have "last (rev ?t) = last (dropWhile isspace (rev ?t))"
    using ne by (metis last_appendR)
  then have l: "last (dropWhile isspace (rev ?t)) = hd ?t" using lr by simp
  have "\<not> isspace (hd (dropWhile isspace (rev ?t)))" using ne by (rule hd_dropWhile)
  then show ?thesis using ne l h by (simp add: trim_spec_def hd_rev last_rev)
qed

lemma trim_back_le: "ptr \<le> s \<Longrightarrow> trim_back b s ptr = Some ptr"
  by (subst trim_back.simps) simp

text \<open>mos_trim on a buffer given by its pieces\<close>
lemma mos_trim_pieces:
  assumes ws1: "\<forall>x\<in>set ws1. isspace x \<or> x = CHR ''*''"
    and core: "core \<noteq> [] \<longrightarrow> \<not> (isspace (hd core) \<or> hd core = CHR ''*'') \<and> \<not> isspace (last core)"
    and ws2: "\<forall>x\<in>set ws2. isspace x" "core = [] \<longrightarrow> ws2 = []"
    and nul: "NUL \<notin> set core"
    and ne: "ws1 @ core @ ws2 \<noteq> []"
  shows "mos_trim (pre @ ws1 @ core @ ws2 @ NUL # post) (Some (length pre)) =
         Some (pre @ ws1 @ core @ NUL # tl (ws2 @ NUL # post), Some (length pre + length ws1))"
proof -
  define b where "b = pre @ ws1 @ core @ ws2 @ NUL # post"
  define s where "s = length pre + length ws1"
  define t where "t = core @ ws2"
  have nult: "NUL \<notin> set t" using nul ws2(1) by (auto simp: t_def)
  define u where "u = ws1 @ t"
  have une: "u \<noteq> []" using ne by (simp add: u_def t_def)
  then obtain c0 l where ul: "u = c0 # l" by (cases u) auto
  define r0 where "r0 = l @ NUL # post"
  have "u @ NUL # post = c0 # r0" by (simp add: ul r0_def)
  then have c0: "ws1 @ t @ NUL # post = c0 # r0" by (simp add: u_def)
  have "c0 \<in> set u" by (simp add: ul)
  then have h0: "c0 \<noteq> NUL" using nult ws1 by (auto simp: u_def)
  have "rd (pre @ c0 # r0) (length pre) = Some c0" by (rule rd_shape)
  then have r0: "rd b (length pre) = Some c0" by (simp add: b_def t_def c0 [symmetric])
  obtain c rest where cr: "t @ NUL # post = c # rest" by (cases "t @ NUL # post") auto
  have c: "\<not> (isspace c \<or> c = CHR ''*'')"
  proof (cases "core = []")
    case True
    then show ?thesis using cr ws2(2) by (simp add: t_def)
  next
    case False
    then have "c = hd core" using cr by (cases core) (auto simp: t_def)
    then show ?thesis using core False by simp
  qed
  have "scan (\<lambda>c. isspace c \<or> c = CHR ''*'') (pre @ ws1 @ c # rest) (length pre) = Some (length pre + length ws1)"
    by (rule scan_shape) (use c ws1 in auto)
  then have sc: "scan (\<lambda>c. isspace c \<or> c = CHR ''*'') b (length pre) = Some s"
    by (simp add: b_def s_def cr [symmetric] t_def)
  have "strlen ((pre @ ws1) @ t @ NUL # post) (length (pre @ ws1)) = Some (length t)"
    using nult by (rule strlen_shape)
  then have sl: "strlen b s = Some (length t)" by (simp add: b_def s_def t_def)
  show ?thesis
  proof (cases "core = []")
    case True
    then have t0: "t = []" and w20: "ws2 = []" using ws2(2) by (simp_all add: t_def)
    have pos: "s > 0" using ne True w20 by (simp add: s_def)
    have "trim_back b s (s - 1) = Some (s - 1)" by (rule trim_back_le) simp
    then have tb: "trim_back b s (s + length t - 1) = Some (s - 1)" using t0 by simp
    have "wr ((pre @ ws1) @ NUL # post) (length (pre @ ws1)) NUL = Some ((pre @ ws1) @ NUL # post)"
      by (rule wr_shape)
    then have "wr b s NUL = Some b" by (simp add: b_def s_def True w20)
    then have w: "wr b (s - 1 + 1) NUL = Some b" using pos by simp
    have "mos_trim b (Some (length pre)) = Some (b, Some s)"
      unfolding mos_trim_def using r0 h0 sc sl tb w by simp
    then show ?thesis by (simp add: b_def s_def True w20)
  next
    case False
    then have cl: "\<not> isspace (last core)" using core by simp
    have "trim_back ((pre @ ws1) @ core @ ws2 @ (NUL # post)) (length (pre @ ws1))
            (length (pre @ ws1) + length core + length ws2 - 1) = Some (length (pre @ ws1) + length core - 1)"
      using ws2(1) False cl by (rule trim_back_shape)
    then have tb: "trim_back b s (s + length t - 1) = Some (s + length core - 1)"
      by (simp add: b_def s_def t_def add.assoc)
    obtain x rest' where xr: "ws2 @ NUL # post = x # rest'" by (cases "ws2 @ NUL # post") auto
    have "wr ((pre @ ws1 @ core) @ x # rest') (length (pre @ ws1 @ core)) NUL = Some ((pre @ ws1 @ core) @ NUL # rest')"
      by (rule wr_shape)
    moreover have "s + length core - 1 + 1 = length (pre @ ws1 @ core)" using False by (cases core) (auto simp: s_def)
    ultimately have w: "wr b (s + length core - 1 + 1) NUL = Some (pre @ ws1 @ core @ NUL # rest')"
      by (simp add: b_def xr [symmetric])
    have "mos_trim b (Some (length pre)) = Some (pre @ ws1 @ core @ NUL # rest', Some s)"
      unfolding mos_trim_def using r0 h0 sc sl tb w by simp
    moreover have "rest' = tl (ws2 @ NUL # post)" using xr by simp
    ultimately show ?thesis by (simp add: b_def s_def)
  qed
qed

lemma trim_spec_Nil:
  assumes "dropWhile (\<lambda>c. isspace c \<or> c = CHR ''*'') str = []"
  shows "trim_spec str = []"
  unfolding trim_spec_def assms by simp

lemma trim_spec_ends:
  assumes "trim_spec str \<noteq> []"
  shows "\<not> isspace (hd (trim_spec str)) \<and> hd (trim_spec str) \<noteq> CHR ''*''
         \<and> \<not> isspace (last (trim_spec str))"
proof -
  have "dropWhile (\<lambda>c. isspace c \<or> c = CHR ''*'') str \<noteq> []"
    using assms trim_spec_Nil by blast
  from trim_spec_hd [OF this] show ?thesis by blast
qed

lemma mos_trim_cstr:
  assumes "cstr b p = Some str"
  shows "\<exists>b' p'. mos_trim b (Some p) = Some (b', Some p') \<and>
                 mos_trim b' (Some p') = Some (b', Some p') \<and>
                 cstr b' p' = Some (trim_spec str)"
proof -
  from cstr_SomeD [OF assms] obtain post where
    b: "b = take p b @ str @ NUL # post" and lp: "length (take p b) = p" and nul: "NUL \<notin> set str"
    by blast
  define pre where "pre = take p b"
  have b': "b = pre @ str @ NUL # post" and lp': "length pre = p" using b lp by (simp_all add: pre_def)
  show ?thesis
  proof (cases "str = []")
    case True
    have "rd (pre @ NUL # post) (length pre) = Some NUL" by (rule rd_shape)
    then have "rd b p = Some NUL" using b' lp' True by simp
    then have "mos_trim b (Some p) = Some (b, Some p)" by (simp add: mos_trim_def)
    moreover have "trim_spec str = []" using True by (simp add: trim_spec_def)
    ultimately show ?thesis using assms True by auto
  next
    case False
    define ws1 where "ws1 = takeWhile (\<lambda>c. isspace c \<or> c = CHR ''*'') str"
    define t where "t = dropWhile (\<lambda>c. isspace c \<or> c = CHR ''*'') str"
    define core where "core = trim_spec str"
    define ws2 where "ws2 = rev (takeWhile isspace (rev t))"
    have str: "str = ws1 @ core @ ws2"
      using trim_split [of str] by (simp add: ws1_def core_def ws2_def t_def)
    have ws1: "\<forall>x\<in>set ws1. isspace x \<or> x = CHR ''*''"
      by (auto simp: ws1_def dest: set_takeWhileD)
    have ws2: "\<forall>x\<in>set ws2. isspace x" by (auto simp: ws2_def dest: set_takeWhileD)
    have tc: "t \<noteq> [] \<Longrightarrow> core \<noteq> [] \<and> \<not> isspace (hd core) \<and> hd core \<noteq> CHR ''*'' \<and> \<not> isspace (last core)"
      using trim_spec_hd [of str] by (simp add: t_def core_def)
    have ct: "core = [] \<Longrightarrow> t = []" using tc by blast
    have c1: "core \<noteq> [] \<longrightarrow> \<not> (isspace (hd core) \<or> hd core = CHR ''*'') \<and> \<not> isspace (last core)"
      using trim_spec_ends [of str] by (simp add: core_def)
    have c2: "core = [] \<longrightarrow> ws2 = []" using ct by (auto simp: ws2_def)
    have nulc: "NUL \<notin> set core" using nul str by (metis Un_iff set_append)
    have ne: "ws1 @ core @ ws2 \<noteq> []" using False str by simp
    define rest where "rest = tl (ws2 @ NUL # post)"
    define b1 where "b1 = pre @ ws1 @ core @ NUL # rest"
    have "mos_trim (pre @ ws1 @ core @ ws2 @ NUL # post) (Some (length pre)) =
            Some (pre @ ws1 @ core @ NUL # tl (ws2 @ NUL # post), Some (length pre + length ws1))"
      using ws1 c1 ws2 c2 nulc ne by (rule mos_trim_pieces)
    then have first: "mos_trim b (Some p) = Some (b1, Some (p + length ws1))"
      using b' lp' str by (simp add: b1_def rest_def)
    have "cstr ((pre @ ws1) @ core @ NUL # rest) (length (pre @ ws1)) = Some core"
      using nulc by (rule cstr_shape)
    then have third: "cstr b1 (p + length ws1) = Some core" using lp' by (simp add: b1_def)
    have second: "mos_trim b1 (Some (p + length ws1)) = Some (b1, Some (p + length ws1))"
    proof (cases "core = []")
      case True
      have "rd ((pre @ ws1) @ NUL # rest) (length (pre @ ws1)) = Some NUL" by (rule rd_shape)
      then have "rd b1 (p + length ws1) = Some NUL" using lp' True by (simp add: b1_def)
      then show ?thesis by (simp add: mos_trim_def)
    next
      case cne: False
      have "mos_trim ((pre @ ws1) @ [] @ core @ [] @ NUL # rest) (Some (length (pre @ ws1))) =
            Some ((pre @ ws1) @ [] @ core @ NUL # tl ([] @ NUL # rest), Some (length (pre @ ws1) + length ([]::string)))"
        by (rule mos_trim_pieces) (use c1 nulc cne in auto)
      then show ?thesis using lp' by (simp add: b1_def)
    qed
    show ?thesis using first second third by (auto simp: core_def)
  qed
qed

lemma trim_spec_keeps_trailing_star:
  assumes "\<exists>c\<in>set str. \<not> (isspace c \<or> c = CHR ''*'')" "last str = CHR ''*''"
  shows "last (trim_spec str) = CHR ''*''"
proof -
  define t where "t = dropWhile (\<lambda>c. isspace c \<or> c = CHR ''*'') str"
  have tne: "t \<noteq> []" using assms(1) by (auto simp: t_def dropWhile_eq_Nil_conv)
  have "str = takeWhile (\<lambda>c. isspace c \<or> c = CHR ''*'') str @ t" by (simp add: t_def)
  then have "last str = last t" using tne by (metis last_appendR)
  then have lt: "last t = CHR ''*''" using assms(2) by simp
  then have "hd (rev t) = CHR ''*''" using tne by (simp add: hd_rev)
  then have "\<not> isspace (hd (rev t))" by (simp add: isspace_def)
  then have "dropWhile isspace (rev t) = rev t" using tne by (cases "rev t") auto
  then have "trim_spec str = t" by (simp add: trim_spec_def t_def)
  then show ?thesis using lt by simp
qed

lemma strspn_shape:
  assumes "\<forall>x\<in>set ds. x \<in> set s2 \<and> x \<noteq> NUL" "c \<notin> set s2 \<or> c = NUL"
  shows "strspn (pre @ ds @ c # post) (length pre) s2 = Some (length ds)"
proof -
  have "scan (\<lambda>c. c \<noteq> NUL \<and> c \<in> set s2) (pre @ ds @ c # post) (length pre) = Some (length pre + length ds)"
    by (rule scan_shape) (use assms in auto)
  then show ?thesis by (simp add: strspn_def)
qed

lemma strcspn_shape:
  assumes "\<forall>x\<in>set tok. x \<notin> set s2 \<and> x \<noteq> NUL" "c \<in> set s2 \<or> c = NUL"
  shows "strcspn (pre @ tok @ c # post) (length pre) s2 = Some (length tok)"
proof -
  have "scan (\<lambda>c. c \<noteq> NUL \<and> c \<notin> set s2) (pre @ tok @ c # post) (length pre) = Some (length pre + length tok)"
    by (rule scan_shape) (use assms in auto)
  then show ?thesis by (simp add: strcspn_def)
qed

lemma mos_strtok_r_none:
  assumes ds: "\<forall>x\<in>set ds. x \<in> set s2 \<and> x \<noteq> NUL"
    and start: "(if s1 = None then ptr else s1) = Some (length pre)"
  shows "mos_strtok_r (pre @ ds @ NUL # rest) s1 s2 ptr
         = Some (pre @ ds @ NUL # rest, None, Some (length pre + length ds))"
proof (cases ds)
  case Nil
  have "rd (pre @ NUL # rest) (length pre) = Some NUL" by (rule rd_shape)
  then show ?thesis using start Nil by (simp add: mos_strtok_r_def)
next
  case (Cons x xs)
  define b where "b = pre @ ds @ NUL # rest"
  have "rd (pre @ x # (xs @ NUL # rest)) (length pre) = Some x" by (rule rd_shape)
  then have r0: "rd b (length pre) = Some x" by (simp add: b_def Cons)
  have x: "x \<noteq> NUL" using ds Cons by simp
  have "strspn (pre @ ds @ NUL # rest) (length pre) s2 = Some (length ds)"
    by (rule strspn_shape) (use ds in auto)
  then have sp: "strspn b (length pre) s2 = Some (length ds)" by (simp add: b_def)
  have "rd ((pre @ ds) @ NUL # rest) (length (pre @ ds)) = Some NUL" by (rule rd_shape)
  then have r1: "rd b (length pre + length ds) = Some NUL" by (simp add: b_def)
  have "mos_strtok_r b s1 s2 ptr = Some (b, None, Some (length pre + length ds))"
    unfolding mos_strtok_r_def using start r0 x sp r1 by simp
  then show ?thesis by (simp add: b_def)
qed

lemma mos_strtok_r_token:
  assumes ds: "\<forall>x\<in>set ds. x \<in> set s2 \<and> x \<noteq> NUL"
    and tok: "tok \<noteq> []" "\<forall>x\<in>set tok. x \<notin> set s2 \<and> x \<noteq> NUL"
    and d: "d \<in> set s2 \<or> d = NUL"
    and start: "(if s1 = None then ptr else s1) = Some (length pre)"
  shows "mos_strtok_r (pre @ ds @ tok @ d # rest) s1 s2 ptr
         = Some (pre @ ds @ tok @ NUL # rest, Some (length pre + length ds),
                 Some (length pre + length ds + length tok + (if d = NUL then 0 else 1)))"
proof -
  define b where "b = pre @ ds @ tok @ d # rest"
  define u where "u = ds @ tok"
  have une: "u \<noteq> []" using tok(1) by (simp add: u_def)
  then obtain x xs where ux: "u = x # xs" by (cases u) auto
  have "x \<in> set u" by (simp add: ux)
  then have x: "x \<noteq> NUL" using ds tok(2) by (auto simp: u_def)
  have "rd (pre @ x # (xs @ d # rest)) (length pre) = Some x" by (rule rd_shape)
  moreover have "b = pre @ x # (xs @ d # rest)" using ux by (simp add: b_def u_def [symmetric])
  ultimately have r0: "rd b (length pre) = Some x" by simp
  obtain t ts where tt: "tok = t # ts" using tok(1) by (cases tok) auto
  have t: "t \<notin> set s2 \<and> t \<noteq> NUL" using tok(2) tt by simp
  have "strspn (pre @ ds @ t # (ts @ d # rest)) (length pre) s2 = Some (length ds)"
    by (rule strspn_shape) (use ds t in auto)
  then have sp: "strspn b (length pre) s2 = Some (length ds)" by (simp add: b_def tt)
  have "rd ((pre @ ds) @ t # (ts @ d # rest)) (length (pre @ ds)) = Some t" by (rule rd_shape)
  then have r1: "rd b (length pre + length ds) = Some t" by (simp add: b_def tt)
  have "strcspn ((pre @ ds) @ tok @ d # rest) (length (pre @ ds)) s2 = Some (length tok)"
    by (rule strcspn_shape) (use tok d in auto)
  then have cs: "strcspn b (length pre + length ds) s2 = Some (length tok)" by (simp add: b_def)
  have "rd ((pre @ ds @ tok) @ d # rest) (length (pre @ ds @ tok)) = Some d" by (rule rd_shape)
  then have r2: "rd b (length pre + length ds + length tok) = Some d" by (simp add: b_def add.assoc)
  have "wr ((pre @ ds @ tok) @ d # rest) (length (pre @ ds @ tok)) NUL = Some ((pre @ ds @ tok) @ NUL # rest)"
    by (rule wr_shape)
  then have w: "wr b (length pre + length ds + length tok) NUL = Some (pre @ ds @ tok @ NUL # rest)"
    by (simp add: b_def add.assoc)
  have "mos_strtok_r b s1 s2 ptr = Some (pre @ ds @ tok @ NUL # rest, Some (length pre + length ds),
                 Some (length pre + length ds + length tok + (if d = NUL then 0 else 1)))"
    unfolding mos_strtok_r_def using start r0 x sp r1 t cs r2 w by (simp add: b_def)
  then show ?thesis by (simp add: b_def)
qed

lemma scan_ge: "scan P b i = Some e \<Longrightarrow> i \<le> e \<and> e < length b"
  by (simp add: scan_Some_iff)









section \<open>Facts about mos\_LOAD and mos\_exec\<close>

lemma mos_LOAD_open_failed:
  assumes "fst (f_open p filename) \<noteq> FR_OK"
  shows "mos_LOAD p filename address sz st
         = (fst (f_open p filename), st\<lparr>trace := trace st @ [Fopen filename, Fclose]\<rparr>)"
proof -
  obtain fr fil where o: "f_open p filename = (fr, fil)" by (cases "f_open p filename")
  then show ?thesis using assms by (simp add: mos_LOAD_def Let_def)
qed

lemma mos_LOAD_overlap:
  assumes "fst (f_open p filename) = FR_OK"
    and "address \<le> MOS_externLastRAMaddress p"
    and "address + load_size sz (objsize (snd (f_open p filename))) > MOS_systemAddress p"
  shows "mos_LOAD p filename address sz st
         = (MOS_OVERLAPPING_SYSTEM, st\<lparr>trace := trace st @ [Fopen filename, Fclose]\<rparr>)"
proof -
  obtain fr fil where o: "f_open p filename = (fr, fil)" by (cases "f_open p filename")
  then show ?thesis using assms by (simp add: mos_LOAD_def Let_def)
qed

lemma word24_add_no_wrap:
  fixes a b :: "24 word"
  assumes "unat a + unat b < 2 ^ 24"
  shows "unat (a + b) = unat a + unat b"
  using assms by (simp add: unat_add_lem [THEN iffD1])

lemma mos_exec_line:
  assumes line: "cstr (buf st) p0 = Some line"
    and split: "trim_spec line = nm @ rest"
    and nm: "nm \<noteq> []" "CHR '' '' \<notin> set nm"
    and rest: "rest = [] \<or> hd rest = CHR '' ''"
    and nc: "hd nm \<noteq> CHR ''#''" "\<not> (nm = ''|'' \<and> rest \<noteq> [])"
  shows "\<exists>b2 q cur. cstr b2 q = Some nm \<and> cstr b2 cur = Some (tl rest) \<and>
           mos_exec p st (Some p0) in_mos =
             (let cmd = find (\<lambda>c. pmatch p nm (name c) = 0) mosCommands;
                  st2 = st\<lparr>buf := b2, mos_strtok_ptr := Some cur,
                           trace := trace st @ (if cmd = None then [NullDescriptorRead] else [])\<rparr>
              in case (case cmd of None \<Rightarrow> None | Some c \<Rightarrow> func c) of
                   Some f \<Rightarrow> Some (CallHandler f (Some cur), st2)
                 | None \<Rightarrow>
                     if length nm > 246 then Some (Return MOS_INVALID_COMMAND, st2)
                     else Some (mos_exec_search p st2 nm in_mos))"
proof -
  from mos_trim_cstr [OF line] obtain b1 q where
    T: "mos_trim (buf st) (Some p0) = Some (b1, Some q)" and c1: "cstr b1 q = Some (trim_spec line)"
    by blast
  from cstr_SomeD [OF c1] obtain post where
    b1: "b1 = take q b1 @ trim_spec line @ NUL # post" and lq: "length (take q b1) = q"
    and nul: "NUL \<notin> set (trim_spec line)" by blast
  define pre where "pre = take q b1"
  have lpre: "length pre = q" using lq by (simp add: pre_def)
  have nulnm: "NUL \<notin> set nm" and nulrest: "NUL \<notin> set rest" using nul split by auto
  obtain d rest' where dr: "rest @ NUL # post = d # rest'" by (cases "rest @ NUL # post") auto
  have d: "d = (if rest = [] then NUL else CHR '' '')"
    using dr rest by (cases rest) auto
  have shape1: "b1 = pre @ nm @ d # rest'" using b1 split dr by (simp add: pre_def)
  obtain h t where ht: "nm = h # t" using nm(1) by (cases nm) auto
  have h: "h \<noteq> NUL" "h \<noteq> CHR ''#''" using nulnm nc(1) ht by auto
  have "rd (pre @ h # (t @ d # rest')) (length pre) = Some h" by (rule rd_shape)
  then have r0: "rd b1 q = Some h" using shape1 ht lpre by simp
  have r1: "rd b1 (q + 1) \<noteq> Some (CHR '' '') \<and> rd b1 (q + 1) \<noteq> None" if "h = CHR ''|''"
  proof (cases t)
    case Nil
    then have "nm = ''|''" using ht that by simp
    then have "rest = []" using nc(2) by simp
    then have dn: "d = NUL" using d by simp
    have "rd ((pre @ [h]) @ d # rest') (length (pre @ [h])) = Some d" by (rule rd_shape)
    then have "rd b1 (q + 1) = Some NUL" using shape1 ht Nil lpre dn by simp
    then show ?thesis by (simp add: NUL_def)
  next
    case (Cons x xs)
    have "rd ((pre @ [h]) @ x # (xs @ d # rest')) (length (pre @ [h])) = Some x" by (rule rd_shape)
    then have "rd b1 (q + 1) = Some x" using shape1 ht Cons lpre by simp
    moreover have "x \<noteq> CHR '' ''" using nm(2) ht Cons by auto
    ultimately show ?thesis by simp
  qed
  have C: "is_comment b1 q = Some False"
    using r0 h r1 by (cases "rd b1 (q + 1)") (auto simp: is_comment_def)
  have "mos_strtok_r (pre @ [] @ nm @ d # rest') (Some q) '' '' (mos_strtok_ptr st)
        = Some (pre @ [] @ nm @ NUL # rest', Some (length pre + length ([]::string)),
                Some (length pre + length ([]::string) + length nm + (if d = NUL then 0 else 1)))"
    by (rule mos_strtok_r_token) (use nm nulnm d lpre in auto)
  then have S: "mos_strtok_r b1 (Some q) '' '' (mos_strtok_ptr st)
        = Some (pre @ nm @ NUL # rest', Some q, Some (q + length nm + (if d = NUL then 0 else 1)))"
    using shape1 lpre by simp
  define b2 where "b2 = pre @ nm @ NUL # rest'"
  define cur where "cur = q + length nm + (if d = NUL then 0 else 1)"
  have "cstr (pre @ nm @ NUL # rest') (length pre) = Some nm" using nulnm by (rule cstr_shape)
  then have c2: "cstr b2 q = Some nm" using lpre by (simp add: b2_def)
  then have G: "mos_getCommand p b2 (Some q) = Some (find (\<lambda>c. pmatch p nm (name c) = 0) mosCommands)"
    by (simp add: mos_getCommand_def)
  have c3: "cstr b2 cur = Some (tl rest)"
  proof (cases rest)
    case Nil
    then have "rest' = post" "d = NUL" using dr by simp_all
    moreover have "cstr ((pre @ nm) @ [] @ NUL # post) (length (pre @ nm)) = Some []"
      by (rule cstr_shape) simp
    ultimately show ?thesis using Nil lpre by (simp add: b2_def cur_def)
  next
    case (Cons x xs)
    then have r': "rest' = xs @ NUL # post" and dx: "d = CHR '' ''" using dr d by simp_all
    have "NUL \<notin> set xs" using nulrest Cons by simp
    then have "cstr ((pre @ nm @ [NUL]) @ xs @ NUL # post) (length (pre @ nm @ [NUL])) = Some xs"
      by (rule cstr_shape)
    then show ?thesis using Cons r' dx lpre by (simp add: b2_def cur_def NUL_def)
  qed
  have "mos_exec p st (Some p0) in_mos =
             (let cmd = find (\<lambda>c. pmatch p nm (name c) = 0) mosCommands;
                  st2 = st\<lparr>buf := b2, mos_strtok_ptr := Some cur,
                           trace := trace st @ (if cmd = None then [NullDescriptorRead] else [])\<rparr>
              in case (case cmd of None \<Rightarrow> None | Some c \<Rightarrow> func c) of
                   Some f \<Rightarrow> Some (CallHandler f (Some cur), st2)
                 | None \<Rightarrow>
                     if length nm > 246 then Some (Return MOS_INVALID_COMMAND, st2)
                     else Some (mos_exec_search p st2 nm in_mos))"
    unfolding mos_exec_def using T C S G c2
    by (auto simp add: b2_def [symmetric] cur_def [symmetric] Let_def split: option.splits)
  then show ?thesis using c2 c3 by blast
qed

lemma mos_LOAD_trace:
  "\<exists>evs. trace (snd (mos_LOAD p path addr sz st)) = trace st @ evs"
proof -
  obtain fr fil where o: "f_open p path = (fr, fil)" by (cases "f_open p path")
  obtain r br fil' m' where rd: "f_read p fil addr (load_size sz (objsize fil)) (mem st) = (r, br, fil', m')"
    by (cases "f_read p fil addr (load_size sz (objsize fil)) (mem st)")
  show ?thesis using o rd by (simp add: mos_LOAD_def Let_def)
qed

lemma mos_runBin_not_handler: "mos_runBin st addr \<noteq> CallHandler f a"
  by (simp add: mos_runBin_def Let_def)

lemma search_candidates_trace:
  "\<exists>evs. trace (snd (search_candidates p cs fr st)) = trace st @ evs"
proof (induction cs arbitrary: fr st)
  case Nil
  show ?case by simp
next
  case (Cons c cs)
  obtain path addr where c: "c = (path, addr)" by (cases c)
  obtain fr' st' where l: "mos_LOAD p path addr 0 st = (fr', st')" by (cases "mos_LOAD p path addr 0 st")
  from mos_LOAD_trace [of p path addr 0 st] l obtain e1 where e1: "trace st' = trace st @ e1" by auto
  from Cons.IH [of fr' st'] obtain e2 where e2: "trace (snd (search_candidates p cs fr' st')) = trace st' @ e2"
    by blast
  show ?case using c l e1 e2 by (simp add: Let_def)
qed

lemma search_candidates_not_handler:
  "fst (search_candidates p cs fr st) \<noteq> CallHandler f a"
proof (induction cs arbitrary: fr st)
  case Nil
  show ?case by simp
next
  case (Cons c cs)
  obtain path addr where c: "c = (path, addr)" by (cases c)
  obtain fr' st' where l: "mos_LOAD p path addr 0 st = (fr', st')" by (cases "mos_LOAD p path addr 0 st")
  show ?case using c l Cons.IH [of fr' st'] by (simp add: Let_def mos_runBin_not_handler)
qed

lemma mos_exec_search_loop:
  "mos_exec_search p st nm in_mos = search_candidates p (search_paths p nm in_mos) 0 st"
proof -
  obtain f1 s1 where l1: "mos_LOAD p (''/mos/'' @ nm @ ''.bin'') (MOS_starLoadAddress p) 0 st = (f1, s1)"
    by (cases "mos_LOAD p (''/mos/'' @ nm @ ''.bin'') (MOS_starLoadAddress p) 0 st")
  obtain f2 s2 where l2: "mos_LOAD p (nm @ ''.bin'') (MOS_defaultLoadAddress p) 0 s1 = (f2, s2)"
    by (cases "mos_LOAD p (nm @ ''.bin'') (MOS_defaultLoadAddress p) 0 s1")
  obtain f3 s3 where l3: "mos_LOAD p (''/bin/'' @ nm @ ''.bin'') (MOS_defaultLoadAddress p) 0 s2 = (f3, s3)"
    by (cases "mos_LOAD p (''/bin/'' @ nm @ ''.bin'') (MOS_defaultLoadAddress p) 0 s2")
  show ?thesis using l1 l2 l3
    by (simp add: mos_exec_search_def search_paths_def Let_def)
qed

lemma mos_exec_comment:
  assumes line: "cstr (buf st) p0 = Some line"
    and c: "trim_spec line = [] \<or> hd (trim_spec line) = CHR ''#'' \<or> take 2 (trim_spec line) = ''| ''"
  shows "\<exists>b1. mos_exec p st (Some p0) in_mos = Some (Return FR_OK, st\<lparr>buf := b1\<rparr>)"
proof -
  from mos_trim_cstr [OF line] obtain b1 q where
    T: "mos_trim (buf st) (Some p0) = Some (b1, Some q)" and c1: "cstr b1 q = Some (trim_spec line)"
    by blast
  from cstr_SomeD [OF c1] obtain post where
    b1: "b1 = take q b1 @ trim_spec line @ NUL # post" and lq: "length (take q b1) = q"
    by blast
  define pre where "pre = take q b1"
  define core where "core = trim_spec line"
  have lpre: "length pre = q" using lq by (simp add: pre_def)
  have shape: "b1 = pre @ core @ NUL # post" using b1 by (simp add: pre_def core_def)
  have C: "is_comment b1 q = Some True"
  proof (cases core)
    case Nil
    have "rd (pre @ NUL # post) (length pre) = Some NUL" by (rule rd_shape)
    then have "rd b1 q = Some NUL" using shape Nil lpre by simp
    then show ?thesis by (simp add: is_comment_def)
  next
    case (Cons h t)
    have "rd (pre @ h # (t @ NUL # post)) (length pre) = Some h" by (rule rd_shape)
    then have r0: "rd b1 q = Some h" using shape Cons lpre by simp
    from c Cons have "h = CHR ''#'' \<or> take 2 (h # t) = ''| ''" by (simp add: core_def)
    then show ?thesis
    proof
      assume "h = CHR ''#''"
      then show ?thesis using r0 by (simp add: is_comment_def)
    next
      assume t2: "take 2 (h # t) = ''| ''"
      then obtain t' where ht: "h = CHR ''|''" "t = CHR '' '' # t'"
        by (cases t) (auto simp: numeral_2_eq_2)
      have "rd ((pre @ [h]) @ CHR '' '' # (t' @ NUL # post)) (length (pre @ [h])) = Some (CHR '' '')"
        by (rule rd_shape)
      then have "rd b1 (q + 1) = Some (CHR '' '')" using shape Cons ht lpre by simp
      then show ?thesis using r0 ht by (simp add: is_comment_def NUL_def)
    qed
  qed
  have "mos_exec p st (Some p0) in_mos = Some (Return FR_OK, st\<lparr>buf := b1\<rparr>)"
    unfolding mos_exec_def using T C by simp
  then show ?thesis by blast
qed

text \<open>The definitions that evaluate \<open>mos_exec\<close> on a concrete line.\<close>

lemmas exec_eval = mos_exec_def mos_trim_def mos_boot_def rd_def wr_def scan.simps trim_back.simps
      strlen_def NUL_def isspace_def is_comment_def mos_strtok_r_def strspn_def strcspn_def
      mos_getCommand_def cstr_def mosCommands_def example_platform_def pmatch_spec_def upper_code_def
      mos_exec_search_def mos_LOAD_def example_open_def result_codes Let_def load_size_def
      mos_runBin_def mos_execMode_def zero_memory_def trim_spec_def search_paths_def

section \<open>Facts about the store of variables\<close>




lemma var_path_nodes:
  "var_path vs h as t \<Longrightarrow> a \<in> set as \<Longrightarrow> \<exists>v. vs a = Some v"
proof (induction as arbitrary: h)
  case Nil
  then show ?case by simp
next
  case (Cons x xs)
  then show ?case by (cases "vs x") auto
qed


declare var_path.simps(2) [simp del]









lemma free_payload_fields [simp]:
  "var_label (free_payload v) = var_label v"
  "var_type (free_payload v) = var_type v"
  "var_next (free_payload v) = var_next v"
  by (simp_all add: free_payload_def)


lemma names_kept_refl [simp]: "names_kept vs vs"
  by (simp add: names_kept_def)


lemma entry_kept_refl [simp]: "entry_kept vs vs b"
  by (simp add: entry_kept_def)










section \<open>Claim C1: a command that matches no entry\<close>

text \<open>
  C1. For a line whose first token matches no entry of the command table, \<open>mos_exec\<close>
  returns without calling a handler of the table, by way of the length check and the
  search. The specification also has it read no field of the absent descriptor; the
  code does read one: the first thing recorded in the trace is the read of \<open>func\<close> through the null
  descriptor, made before the descriptor is compared with null.
\<close>

theorem mos_exec_unknown_command:
  "cstr (buf st) p0 = Some line \<and> trim_spec line = nm @ rest \<and> nm \<noteq> [] \<and>
   CHR '' '' \<notin> set nm \<and> (rest = [] \<or> hd rest = CHR '' '') \<and>
   hd nm \<noteq> CHR ''#'' \<and> \<not> (nm = ''|'' \<and> rest \<noteq> []) \<and>
   find (\<lambda>c. pmatch p nm (name c) = 0) mosCommands = None
   \<longrightarrow>
   (\<exists>r st'. mos_exec p st (Some p0) in_mos = Some (r, st') \<and>
      (\<forall>f a. r \<noteq> CallHandler f a) \<and>
      (\<exists>evs. trace st' = trace st @ NullDescriptorRead # evs))"
proof -
  have "\<exists>r st'. mos_exec p st (Some p0) in_mos = Some (r, st') \<and>
      (\<forall>f a. r \<noteq> CallHandler f a) \<and>
      (\<exists>evs. trace st' = trace st @ NullDescriptorRead # evs)"
    if h: "cstr (buf st) p0 = Some line" "trim_spec line = nm @ rest" "nm \<noteq> []"
      "CHR '' '' \<notin> set nm" "rest = [] \<or> hd rest = CHR '' ''"
      "hd nm \<noteq> CHR ''#''" "\<not> (nm = ''|'' \<and> rest \<noteq> [])"
      and nf: "find (\<lambda>c. pmatch p nm (name c) = 0) mosCommands = None"
  proof -
    from mos_exec_line [OF h, of p in_mos] obtain b2 q cur where
      e: "mos_exec p st (Some p0) in_mos =
             (let cmd = find (\<lambda>c. pmatch p nm (name c) = 0) mosCommands;
                  st2 = st\<lparr>buf := b2, mos_strtok_ptr := Some cur,
                           trace := trace st @ (if cmd = None then [NullDescriptorRead] else [])\<rparr>
              in case (case cmd of None \<Rightarrow> None | Some c \<Rightarrow> func c) of
                   Some f \<Rightarrow> Some (CallHandler f (Some cur), st2)
                 | None \<Rightarrow>
                     if length nm > 246 then Some (Return MOS_INVALID_COMMAND, st2)
                     else Some (mos_exec_search p st2 nm in_mos))"
      by blast
    define st2 where "st2 = st\<lparr>buf := b2, mos_strtok_ptr := Some cur,
                           trace := trace st @ [NullDescriptorRead]\<rparr>"
    have e': "mos_exec p st (Some p0) in_mos =
        (if length nm > 246 then Some (Return MOS_INVALID_COMMAND, st2)
         else Some (search_candidates p (search_paths p nm in_mos) 0 st2))"
      using e nf by (simp add: st2_def mos_exec_search_loop)
    show ?thesis
    proof (cases "length nm > 246")
      case True
      then have "mos_exec p st (Some p0) in_mos = Some (Return MOS_INVALID_COMMAND, st2)"
        using e' by simp
      moreover have "trace st2 = trace st @ NullDescriptorRead # []" by (simp add: st2_def)
      ultimately show ?thesis by blast
    next
      case False
      obtain r st' where rs: "search_candidates p (search_paths p nm in_mos) 0 st2 = (r, st')"
        by (cases "search_candidates p (search_paths p nm in_mos) 0 st2")
      from search_candidates_trace [of p "search_paths p nm in_mos" 0 st2] rs
      obtain evs where "trace st' = trace st2 @ evs" by auto
      then have tr: "trace st' = trace st @ NullDescriptorRead # evs" by (simp add: st2_def)
      from search_candidates_not_handler [of p "search_paths p nm in_mos" 0 st2] rs
      have nh: "\<forall>f a. r \<noteq> CallHandler f a" by auto
      have "mos_exec p st (Some p0) in_mos = Some (r, st')" using e' False rs by simp
      then show ?thesis using nh tr by blast
    qed
  qed
  then show ?thesis by blast
qed

theorem mos_exec_unknown_command_witness:
  "mos_exec (example_platform []) (mos_boot (''frob a b'' @ [NUL])) (Some 0) True
     = Some (Return MOS_INVALID_COMMAND,
             (mos_boot (''frob'' @ [NUL] @ ''a b'' @ [NUL]))
               \<lparr>mos_strtok_ptr := Some 5,
                trace := [NullDescriptorRead, Fopen ''/mos/frob.bin'', Fclose,
                          Fopen ''frob.bin'', Fclose, Fopen ''/bin/frob.bin'', Fclose]\<rparr>) \<and>
   (\<exists>r st'. mos_exec (example_platform []) (mos_boot (''frob a b'' @ [NUL])) (Some 0) True
        = Some (r, st') \<and> (\<exists>evs. trace st' = NullDescriptorRead # evs))"
proof -
  let ?p = "example_platform []"
  let ?st = "mos_boot (''frob a b'' @ [NUL])"
  have h: "cstr (buf ?st) 0 = Some ''frob a b''" "trim_spec ''frob a b'' = ''frob'' @ '' a b''"
    "find (\<lambda>c. pmatch ?p ''frob'' (name c) = 0) mosCommands = None"
    by (simp_all add: exec_eval)
  have a: "\<exists>r st'. mos_exec ?p ?st (Some 0) True = Some (r, st') \<and>
             (\<exists>evs. trace st' = NullDescriptorRead # evs)"
    using mos_exec_unknown_command [of ?st 0 "''frob a b''" "''frob''" "'' a b''" ?p True] h
    by (simp add: mos_boot_def) blast
  have b: "mos_exec ?p ?st (Some 0) True
     = Some (Return MOS_INVALID_COMMAND,
             (mos_boot (''frob'' @ [NUL] @ ''a b'' @ [NUL]))
               \<lparr>mos_strtok_ptr := Some 5,
                trace := [NullDescriptorRead, Fopen ''/mos/frob.bin'', Fclose,
                          Fopen ''frob.bin'', Fclose, Fopen ''/bin/frob.bin'', Fclose]\<rparr>)"
    by (simp add: exec_eval)
  show ?thesis using a b by (intro conjI)
qed

section \<open>Claim C2: the guard of mos\_LOAD\<close>

text \<open>
  C2, as amended. When the file opens, the length of the check is the number of bytes
  that would be read: the file size when the requested size is 0, else the smaller of
  the two. If the address is at most the last address of external RAM and address plus
  that length, which fits in 24 bits, is beyond the system address, \<open>mos_LOAD\<close> returns
  \<open>MOS_OVERLAPPING_SYSTEM\<close>; the file is opened and closed and \<open>f_read\<close> is not called,
  so memory is as before. When the file does not open, the result of \<open>f_open\<close> is
  returned, again without a read.
\<close>

theorem mos_LOAD_overlap_guard:
  "(fst (f_open p filename) = FR_OK \<and>
    address \<le> MOS_externLastRAMaddress p \<and>
    unat (MOS_systemAddress p) < unat address + unat (load_size sz (objsize (snd (f_open p filename)))) \<and>
    unat address + unat (load_size sz (objsize (snd (f_open p filename)))) < 2 ^ 24
    \<longrightarrow> mos_LOAD p filename address sz st
          = (MOS_OVERLAPPING_SYSTEM, st\<lparr>trace := trace st @ [Fopen filename, Fclose]\<rparr>)) \<and>
   (fst (f_open p filename) \<noteq> FR_OK
    \<longrightarrow> mos_LOAD p filename address sz st
          = (fst (f_open p filename), st\<lparr>trace := trace st @ [Fopen filename, Fclose]\<rparr>))"
proof -
  have "mos_LOAD p filename address sz st
          = (MOS_OVERLAPPING_SYSTEM, st\<lparr>trace := trace st @ [Fopen filename, Fclose]\<rparr>)"
    if ok: "fst (f_open p filename) = FR_OK" and ext: "address \<le> MOS_externLastRAMaddress p"
      and over: "unat (MOS_systemAddress p) < unat address + unat (load_size sz (objsize (snd (f_open p filename))))"
      and nowrap: "unat address + unat (load_size sz (objsize (snd (f_open p filename)))) < 2 ^ 24"
  proof -
    have "unat (address + load_size sz (objsize (snd (f_open p filename))))
          = unat address + unat (load_size sz (objsize (snd (f_open p filename))))"
      using nowrap by (rule word24_add_no_wrap)
    then have "address + load_size sz (objsize (snd (f_open p filename))) > MOS_systemAddress p"
      using over by (simp add: word_less_nat_alt)
    with ok ext show ?thesis by (rule mos_LOAD_overlap)
  qed
  then show ?thesis using mos_LOAD_open_failed [of p filename address sz st] by blast
qed

text \<open>
  As the specification states it, for the requested length, the property fails: a
  request for 0x20000 bytes at 0x0B0000 reaches beyond the system address, yet with a
  file of 16 bytes the load succeeds and 16 bytes are read.
\<close>

theorem mos_LOAD_short_file_is_read:
  "mos_LOAD (example_platform [(''a.bin'', FR_OK, 16)]) ''a.bin'' 0x0B0000 0x020000 (mos_boot [])
     = (FR_OK, (mos_boot [])\<lparr>trace := [Fopen ''a.bin'', Fread 0x0B0000 16, Fclose]\<rparr>) \<and>
   (0x0B0000 :: 24 word) \<le> MOS_externLastRAMaddress (example_platform [(''a.bin'', FR_OK, 16)]) \<and>
   (0x0B0000 :: 24 word) + 0x020000 > MOS_systemAddress (example_platform [(''a.bin'', FR_OK, 16)]) \<and>
   FR_OK \<noteq> MOS_OVERLAPPING_SYSTEM"
  by (simp add: mos_LOAD_def example_platform_def example_open_def mos_boot_def load_size_def
        result_codes Let_def)

theorem mos_LOAD_overlap_guard_witness:
  "mos_LOAD (example_platform [(''a.bin'', FR_OK, 0x020000)]) ''a.bin'' 0x0B0000 0 (mos_boot [])
     = (MOS_OVERLAPPING_SYSTEM, (mos_boot [])\<lparr>trace := [Fopen ''a.bin'', Fclose]\<rparr>) \<and>
   mos_LOAD (example_platform []) ''a.bin'' 0x0B0000 0 (mos_boot [])
     = (FR_NO_FILE, (mos_boot [])\<lparr>trace := [Fopen ''a.bin'', Fclose]\<rparr>)"
  using mos_LOAD_overlap_guard [of "example_platform [(''a.bin'', FR_OK, 0x020000)]" "''a.bin''"
      "0x0B0000" 0 "mos_boot []"]
    mos_LOAD_overlap_guard [of "example_platform []" "''a.bin''" "0x0B0000" 0 "mos_boot []"]
  by (simp add: example_platform_def example_open_def mos_boot_def load_size_def result_codes)

text \<open>
  The hypothesis that the sum fits in 24 bits is needed: the check adds in 24 bits, so for
  a file of 0xF60000 bytes loaded at 0x0B0000 the sum wraps to 0x010000, the check passes
  and the read is made over the system area.
\<close>

lemma mos_LOAD_guard_wraps:
  "mos_LOAD (example_platform [(''big.bin'', FR_OK, 0xF60000)]) ''big.bin'' 0x0B0000 0 (mos_boot [])
     = (FR_OK, (mos_boot [])\<lparr>trace := [Fopen ''big.bin'', Fread 0x0B0000 0xF60000, Fclose]\<rparr>)"
  by (simp add: mos_LOAD_def example_platform_def example_open_def mos_boot_def load_size_def
        result_codes Let_def)

section \<open>Claim C3: the search for the program file\<close>




section \<open>Claim C4: the signature and the mode byte\<close>

text \<open>
  C4. When the three signature bytes \<open>'M'\<close>, \<open>'O'\<close>, \<open>'S'\<close> are not at offset 0x40 of
  the image, running it returns \<open>MOS_INVALID_EXECUTABLE\<close>. When they are, a mode byte 0
  hands over to \<open>exec16\<close>, a mode byte 1 to \<open>exec24\<close>, both with the load address and
  the cursor as arguments, and any other mode byte returns \<open>MOS_INVALID_EXECUTABLE\<close>.
\<close>

theorem mos_runBin_dispatch:
  "(\<not> (mem st (addr + 0x40) = 0x4D \<and> mem st (addr + 0x41) = 0x4F \<and> mem st (addr + 0x42) = 0x53)
      \<longrightarrow> mos_runBin st addr = Return MOS_INVALID_EXECUTABLE) \<and>
   (mem st (addr + 0x40) = 0x4D \<and> mem st (addr + 0x41) = 0x4F \<and> mem st (addr + 0x42) = 0x53
      \<longrightarrow>
      (mem st (addr + 0x44) = 0 \<longrightarrow> mos_runBin st addr = CallExec16 addr (mos_strtok_ptr st)) \<and>
      (mem st (addr + 0x44) = 1 \<longrightarrow> mos_runBin st addr = CallExec24 addr (mos_strtok_ptr st)) \<and>
      (mem st (addr + 0x44) \<noteq> 0 \<and> mem st (addr + 0x44) \<noteq> 1
         \<longrightarrow> mos_runBin st addr = Return MOS_INVALID_EXECUTABLE))"
  by (simp add: mos_runBin_def mos_execMode_def)

theorem mos_runBin_dispatch_witness:
  "mos_runBin (mos_boot []) 0x040000 = Return MOS_INVALID_EXECUTABLE \<and>
   mos_runBin ((mos_boot [])\<lparr>mem := zero_memory(0x040040 := 0x4D, 0x040041 := 0x4F, 0x040042 := 0x53)\<rparr>)
     0x040000 = CallExec16 0x040000 None \<and>
   mos_runBin ((mos_boot [])\<lparr>mem := zero_memory(0x040040 := 0x4D, 0x040041 := 0x4F, 0x040042 := 0x53,
                                                  0x040044 := 1)\<rparr>)
     0x040000 = CallExec24 0x040000 None \<and>
   mos_runBin ((mos_boot [])\<lparr>mem := zero_memory(0x040040 := 0x4D, 0x040041 := 0x4F, 0x040042 := 0x53,
                                                  0x040044 := 2)\<rparr>)
     0x040000 = Return MOS_INVALID_EXECUTABLE"
  using mos_runBin_dispatch [of "mos_boot []" "0x040000"]
    mos_runBin_dispatch [of "(mos_boot [])\<lparr>mem := zero_memory(0x040040 := 0x4D, 0x040041 := 0x4F, 0x040042 := 0x53)\<rparr>" "0x040000"]
    mos_runBin_dispatch [of "(mos_boot [])\<lparr>mem := zero_memory(0x040040 := 0x4D, 0x040041 := 0x4F, 0x040042 := 0x53,
                                                  0x040044 := 1)\<rparr>" "0x040000"]
    mos_runBin_dispatch [of "(mos_boot [])\<lparr>mem := zero_memory(0x040040 := 0x4D, 0x040041 := 0x4F, 0x040042 := 0x53,
                                                  0x040044 := 2)\<rparr>" "0x040000"]
  by (simp add: mos_boot_def zero_memory_def)

section \<open>Claim C5: the cursor when a parser fails\<close>




section \<open>Claim C6: UNSET keeps the code variables\<close>



section \<open>Claim C7: mos\_trim is idempotent\<close>

text \<open>
  C7. For every string, the null pointer and the empty string included, \<open>mos_trim\<close> is
  idempotent: it returns, and trimming its result again returns the same pointer and
  leaves the buffer as it is. The text it returns is \<open>trim_spec\<close> of the text it was
  given: it starts with neither white space nor an asterisk, and an asterisk at the end of
  the input that follows some other visible character is still at the end of the result.
\<close>

theorem mos_trim_idempotent:
  "mos_trim b None = Some (b, None) \<and>
   (cstr b p = Some str \<longrightarrow>
      (\<exists>b' p'. mos_trim b (Some p) = Some (b', Some p') \<and>
               mos_trim b' (Some p') = Some (b', Some p') \<and>
               cstr b' p' = Some (trim_spec str) \<and>
               (trim_spec str \<noteq> [] \<longrightarrow>
                  \<not> isspace (hd (trim_spec str)) \<and> hd (trim_spec str) \<noteq> CHR ''*'') \<and>
               ((\<exists>c\<in>set str. \<not> (isspace c \<or> c = CHR ''*'')) \<and> last str = CHR ''*'' \<longrightarrow>
                  last (trim_spec str) = CHR ''*'')))"
proof -
  have hd: "trim_spec str \<noteq> [] \<longrightarrow> \<not> isspace (hd (trim_spec str)) \<and> hd (trim_spec str) \<noteq> CHR ''*''"
    using trim_spec_ends [of str] by blast
  show ?thesis
    using mos_trim_cstr [of b p str] trim_spec_keeps_trailing_star [of str] hd
    by (auto simp: mos_trim_def)
qed

text \<open>The buffer holds \<open>" * run a *  "\<close>, then a terminator and other bytes.\<close>

theorem mos_trim_idempotent_witness:
  "cstr ('' * run a *  '' @ [NUL] @ ''zz'') 0 = Some '' * run a *  '' \<and>
   (\<exists>c\<in>set '' * run a *  ''. \<not> (isspace c \<or> c = CHR ''*'')) \<and>
   (\<exists>b' p'. mos_trim ('' * run a *  '' @ [NUL] @ ''zz'') (Some 0) = Some (b', Some p') \<and>
            mos_trim b' (Some p') = Some (b', Some p') \<and>
            cstr b' p' = Some ''run a *'')"
proof -
  have c: "cstr ('' * run a *  '' @ [NUL] @ ''zz'') 0 = Some '' * run a *  ''"
    by (simp add: cstr_def strlen_def scan.simps NUL_def)
  have t: "trim_spec '' * run a *  '' = ''run a *''"
    by (simp add: trim_spec_def isspace_def)
  have e: "\<exists>c\<in>set '' * run a *  ''. \<not> (isspace c \<or> c = CHR ''*'')"
    by (simp add: isspace_def)
  from mos_trim_idempotent [of "'' * run a *  '' @ [NUL] @ ''zz''" 0 "'' * run a *  ''"] c
  have "\<exists>b' p'. mos_trim ('' * run a *  '' @ [NUL] @ ''zz'') (Some 0) = Some (b', Some p') \<and>
            mos_trim b' (Some p') = Some (b', Some p') \<and>
            cstr b' p' = Some (trim_spec '' * run a *  '')"
    by blast
  then show ?thesis using c e unfolding t by blast
qed

section \<open>Claim C8: the tokens of mos\_strtok\_r\<close>

text \<open>
  C8. Tokenising \<open>"  a  b "\<close> with the delimiter \<open>" "\<close> yields the token \<open>"a"\<close>, then
  \<open>"b"\<close>, then no token. In general, from a start pointer (the first argument, or the
  cursor when that is null) the tokeniser skips the delimiters \<open>ds\<close>; when the string ends
  there it returns no token and leaves the cursor at the terminator; a token \<open>tok\<close> that
  ends the string is returned with the cursor at the terminator; a token followed by a
  delimiter is terminated in place of that delimiter and the cursor is just past it.
\<close>

theorem mos_strtok_r_tokens:
  "(mos_strtok_r (''  a  b '' @ [NUL]) (Some 0) '' '' None
      = Some (''  a'' @ [NUL] @ '' b '' @ [NUL], Some 2, Some 4) \<and>
    cstr (''  a'' @ [NUL] @ '' b '' @ [NUL]) 2 = Some ''a'' \<and>
    mos_strtok_r (''  a'' @ [NUL] @ '' b '' @ [NUL]) None '' '' (Some 4)
      = Some (''  a'' @ [NUL] @ '' b'' @ [NUL, NUL], Some 5, Some 7) \<and>
    cstr (''  a'' @ [NUL] @ '' b'' @ [NUL, NUL]) 5 = Some ''b'' \<and>
    mos_strtok_r (''  a'' @ [NUL] @ '' b'' @ [NUL, NUL]) None '' '' (Some 7)
      = Some (''  a'' @ [NUL] @ '' b'' @ [NUL, NUL], None, Some 7)) \<and>
   ((\<forall>x\<in>set ds. x \<in> set s2 \<and> x \<noteq> NUL) \<and> (if s1 = None then ptr else s1) = Some (length pre)
      \<longrightarrow>
      mos_strtok_r (pre @ ds @ NUL # rest) s1 s2 ptr
        = Some (pre @ ds @ NUL # rest, None, Some (length pre + length ds)) \<and>
      (tok \<noteq> [] \<and> (\<forall>x\<in>set tok. x \<notin> set s2 \<and> x \<noteq> NUL) \<longrightarrow>
         mos_strtok_r (pre @ ds @ tok @ NUL # rest) s1 s2 ptr
           = Some (pre @ ds @ tok @ NUL # rest, Some (length pre + length ds),
                   Some (length pre + length ds + length tok)) \<and>
         (d \<in> set s2 \<and> d \<noteq> NUL \<longrightarrow>
            mos_strtok_r (pre @ ds @ tok @ d # rest) s1 s2 ptr
              = Some (pre @ ds @ tok @ NUL # rest, Some (length pre + length ds),
                      Some (length pre + length ds + length tok + 1)) \<and>
            cstr (pre @ ds @ tok @ NUL # rest) (length pre + length ds) = Some tok)))"
proof -
  have run: "mos_strtok_r (''  a  b '' @ [NUL]) (Some 0) '' '' None
      = Some (''  a'' @ [NUL] @ '' b '' @ [NUL], Some 2, Some 4) \<and>
    cstr (''  a'' @ [NUL] @ '' b '' @ [NUL]) 2 = Some ''a'' \<and>
    mos_strtok_r (''  a'' @ [NUL] @ '' b '' @ [NUL]) None '' '' (Some 4)
      = Some (''  a'' @ [NUL] @ '' b'' @ [NUL, NUL], Some 5, Some 7) \<and>
    cstr (''  a'' @ [NUL] @ '' b'' @ [NUL, NUL]) 5 = Some ''b'' \<and>
    mos_strtok_r (''  a'' @ [NUL] @ '' b'' @ [NUL, NUL]) None '' '' (Some 7)
      = Some (''  a'' @ [NUL] @ '' b'' @ [NUL, NUL], None, Some 7)"
    by (simp add: mos_strtok_r_def rd_def wr_def strspn_def strcspn_def cstr_def strlen_def
                  scan.simps NUL_def)
  have none: "mos_strtok_r (pre @ ds @ NUL # rest) s1 s2 ptr
        = Some (pre @ ds @ NUL # rest, None, Some (length pre + length ds))"
    if "\<forall>x\<in>set ds. x \<in> set s2 \<and> x \<noteq> NUL" "(if s1 = None then ptr else s1) = Some (length pre)"
    using that by (rule mos_strtok_r_none)
  have last_tok: "mos_strtok_r (pre @ ds @ tok @ NUL # rest) s1 s2 ptr
           = Some (pre @ ds @ tok @ NUL # rest, Some (length pre + length ds),
                   Some (length pre + length ds + length tok))"
    if "\<forall>x\<in>set ds. x \<in> set s2 \<and> x \<noteq> NUL" "(if s1 = None then ptr else s1) = Some (length pre)"
       "tok \<noteq> []" "\<forall>x\<in>set tok. x \<notin> set s2 \<and> x \<noteq> NUL"
    using mos_strtok_r_token [of ds s2 tok NUL s1 ptr pre rest] that by simp
  have mid_tok: "mos_strtok_r (pre @ ds @ tok @ d # rest) s1 s2 ptr
              = Some (pre @ ds @ tok @ NUL # rest, Some (length pre + length ds),
                      Some (length pre + length ds + length tok + 1))"
    if "\<forall>x\<in>set ds. x \<in> set s2 \<and> x \<noteq> NUL" "(if s1 = None then ptr else s1) = Some (length pre)"
       "tok \<noteq> []" "\<forall>x\<in>set tok. x \<notin> set s2 \<and> x \<noteq> NUL" "d \<in> set s2" "d \<noteq> NUL"
    using mos_strtok_r_token [of ds s2 tok d s1 ptr pre rest] that by simp
  have cs: "cstr (pre @ ds @ tok @ NUL # rest) (length pre + length ds) = Some tok"
    if "\<forall>x\<in>set tok. x \<notin> set s2 \<and> x \<noteq> NUL"
  proof -
    have "cstr ((pre @ ds) @ tok @ NUL # rest) (length (pre @ ds)) = Some tok"
      by (rule cstr_shape) (use that in auto)
    then show ?thesis by simp
  qed
  show ?thesis using run none last_tok mid_tok cs by blast
qed

theorem mos_strtok_r_tokens_witness:
  "mos_strtok_r (''  a  b '' @ [NUL]) (Some 0) '' '' None
     = Some (''  a'' @ [NUL] @ '' b '' @ [NUL], Some 2, Some 4) \<and>
   cstr (''  a'' @ [NUL] @ '' b '' @ [NUL]) 2 = Some ''a'' \<and>
   mos_strtok_r (''  a'' @ [NUL]) (Some 0) '' '' None = Some (''  a'' @ [NUL], Some 2, Some 3) \<and>
   mos_strtok_r (''  '' @ [NUL]) (Some 0) '' '' None = Some (''  '' @ [NUL], None, Some 2)"
  using mos_strtok_r_tokens [where ds = "''  ''" and ?s2.0 = "'' ''" and ?s1.0 = "Some 0"
      and ptr = None and pre = "[]" and rest = "'' b '' @ [NUL]" and tok = "''a''"
      and d = "CHR '' ''"]
    mos_strtok_r_tokens [where ds = "''  ''" and ?s2.0 = "'' ''" and ?s1.0 = "Some 0"
      and ptr = None and pre = "[]" and rest = "[]" and tok = "''a''"
      and d = "CHR '' ''"]
  by (simp add: NUL_def)

section \<open>Claim C9: blank lines and comments\<close>

text \<open>
  C9. When the line, once trimmed, is empty, begins with \<open>#\<close>, or begins with a bar and
  a space, \<open>mos_exec\<close> returns \<open>FR_OK\<close> and nothing else happens: the state differs from
  the one it was given in the buffer only (the terminator written by the trim), so the
  trace is as before, no handler is called and no file is opened or read.
\<close>

theorem mos_exec_comment_noop:
  "cstr (buf st) p0 = Some line \<and>
   (trim_spec line = [] \<or> hd (trim_spec line) = CHR ''#'' \<or> take 2 (trim_spec line) = ''| '')
   \<longrightarrow> (\<exists>b1. mos_exec p st (Some p0) in_mos = Some (Return FR_OK, st\<lparr>buf := b1\<rparr>))"
  using mos_exec_comment [of st p0 line p in_mos] by blast

theorem mos_exec_comment_noop_witness:
  "(\<exists>b1. mos_exec (example_platform []) (mos_boot (''  | dir'' @ [NUL])) (Some 0) True
       = Some (Return FR_OK, (mos_boot (''  | dir'' @ [NUL]))\<lparr>buf := b1\<rparr>)) \<and>
   (\<exists>b1. mos_exec (example_platform []) (mos_boot (''*# dir'' @ [NUL])) (Some 0) True
       = Some (Return FR_OK, (mos_boot (''*# dir'' @ [NUL]))\<lparr>buf := b1\<rparr>)) \<and>
   (\<exists>b1. mos_exec (example_platform []) (mos_boot (''* '' @ [NUL])) (Some 0) True
       = Some (Return FR_OK, (mos_boot (''* '' @ [NUL]))\<lparr>buf := b1\<rparr>))"
proof -
  have c1: "cstr (buf (mos_boot (''  | dir'' @ [NUL]))) 0 = Some ''  | dir''"
    and c2: "cstr (buf (mos_boot (''*# dir'' @ [NUL]))) 0 = Some ''*# dir''"
    and c3: "cstr (buf (mos_boot (''* '' @ [NUL]))) 0 = Some ''* ''"
    by (simp_all add: mos_boot_def cstr_def strlen_def scan.simps NUL_def)
  have t1: "take 2 (trim_spec ''  | dir'') = ''| ''"
    and t2: "hd (trim_spec ''*# dir'') = CHR ''#''"
    and t3: "trim_spec ''* '' = []"
    by (simp_all add: trim_spec_def isspace_def)
  show ?thesis
    using mos_exec_comment_noop [of "mos_boot (''  | dir'' @ [NUL])" 0 "''  | dir''" "example_platform []" True]
      mos_exec_comment_noop [of "mos_boot (''*# dir'' @ [NUL])" 0 "''*# dir''" "example_platform []" True]
      mos_exec_comment_noop [of "mos_boot (''* '' @ [NUL])" 0 "''* ''" "example_platform []" True]
      c1 c2 c3 t1 t2 t3
    by blast
qed

section \<open>Claim C10: invalid file handles\<close>

text \<open>
  C10. For a handle that is 0, greater than \<open>MOS_maxOpenFiles\<close>, or whose slot is not in
  use, \<open>mos_GETFIL\<close> returns 0, \<open>mos_FREAD\<close> and \<open>mos_FWRITE\<close> return 0 bytes and leave
  the state as it is (no call to FatFS, memory untouched), and \<open>mos_FLSEEK\<close> returns
  \<open>FR_INVALID_OBJECT\<close>.
\<close>

theorem mos_file_handle_invalid:
  "fh = 0 \<or> unat fh > MOS_maxOpenFiles p \<or> free (mosFileObjects st (unat fh - 1)) = 0 \<longrightarrow>
     mos_GETFIL p st fh = 0 \<and>
     mos_FREAD p st fh buffer btr = (0, st) \<and>
     mos_FWRITE p st fh buffer btw = (0, st) \<and>
     mos_FLSEEK p st fh offset = (FR_INVALID_OBJECT, st)"
proof -
  have "mos_GETFIL p st fh = 0"
    if "fh = 0 \<or> unat fh > MOS_maxOpenFiles p \<or> free (mosFileObjects st (unat fh - 1)) = 0"
    using that by (auto simp: mos_GETFIL_def)
  then show ?thesis
    by (simp add: mos_FREAD_def mos_FWRITE_def mos_FLSEEK_def)
qed

theorem mos_file_handle_invalid_witness:
  "mos_GETFIL (example_platform []) (mos_boot []) 0 = 0 \<and>
   mos_FREAD (example_platform []) (mos_boot []) 0 0x040000 16 = (0, mos_boot []) \<and>
   mos_GETFIL (example_platform []) (mos_boot []) 9 = 0 \<and>
   mos_FWRITE (example_platform []) (mos_boot []) 9 0x040000 16 = (0, mos_boot []) \<and>
   mos_GETFIL (example_platform []) (mos_boot []) 3 = 0 \<and>
   mos_FLSEEK (example_platform []) (mos_boot []) 3 100 = (FR_INVALID_OBJECT, mos_boot [])"
  using mos_file_handle_invalid [of 0 "example_platform []" "mos_boot []" "0x040000" 16 16 100]
    mos_file_handle_invalid [of 9 "example_platform []" "mos_boot []" "0x040000" 16 16 100]
    mos_file_handle_invalid [of 3 "example_platform []" "mos_boot []" "0x040000" 16 16 100]
  by (simp add: example_platform_def mos_boot_def closed_files_def)

end
